theory Spec2Isabelle
  imports Main "HOL-Library.Word"
begin

section \<open>Go bytes, runes and UTF-8\<close>

text \<open>
  The body of an open post is a Go \<open>[]byte\<close>; the splice text is a Go \<open>[]rune\<close>
  (\<open>int32\<close>). The standard library functions that the operations call on them
  (\<open>string(rune)\<close>, \<open>[]rune(string)\<close>, \<open>utf8.DecodeLastRune\<close>, \<open>utf8.RuneLen\<close>)
  are written out here, with the shifts and masks of the library as \<open>div\<close> and \<open>mod\<close>
  on the unsigned value.
\<close>

type_synonym byte = "8 word"
type_synonym rune = "32 word"

definition byteOf :: "nat \<Rightarrow> byte" where
  "byteOf n = of_nat n"

definition runeOf :: "nat \<Rightarrow> rune" where
  "runeOf n = of_nat n"

definition RuneError :: rune where
  "RuneError = 0xFFFD"

text \<open>A rune that \<open>utf8.ValidRune\<close> accepts: at most \<open>MaxRune\<close> and not a surrogate.\<close>

definition validRune :: "rune \<Rightarrow> bool" where
  "validRune r = (unat r \<le> 0x10FFFF \<and> \<not> (0xD800 \<le> unat r \<and> unat r \<le> 0xDFFF))"

text \<open>What a rune reads back as after \<open>string(r)\<close>: itself, or \<open>RuneError\<close> when it
  is not valid.\<close>

definition sanitize :: "rune \<Rightarrow> rune" where
  "sanitize r = (if validRune r then r else RuneError)"

text \<open>
  \<open>string(r)\<close> and \<open>utf8.EncodeRune\<close>: the switch is on \<open>uint32(r)\<close>, so a negative
  rune is out of range and is written as \<open>RuneError\<close>, like a surrogate.
\<close>

definition encodeRune :: "rune \<Rightarrow> byte list" where
  "encodeRune r =
     (let i = unat r in
      if i \<le> 0x7F then [byteOf i]
      else if i \<le> 0x7FF then [byteOf (0xC0 + i div 64), byteOf (0x80 + i mod 64)]
      else if i > 0x10FFFF \<or> (0xD800 \<le> i \<and> i \<le> 0xDFFF) then [0xEF, 0xBF, 0xBD]
      else if i \<le> 0xFFFF then
        [byteOf (0xE0 + i div 4096), byteOf (0x80 + i div 64 mod 64), byteOf (0x80 + i mod 64)]
      else
        [byteOf (0xF0 + i div 262144), byteOf (0x80 + i div 4096 mod 64),
         byteOf (0x80 + i div 64 mod 64), byteOf (0x80 + i mod 64)])"

text \<open>\<open>string(rs)\<close> for a \<open>[]rune\<close>.\<close>

definition encodeRunes :: "rune list \<Rightarrow> byte list" where
  "encodeRunes rs = concat (map encodeRune rs)"

text \<open>
  The tables \<open>first\<close> and \<open>acceptRanges\<close> of \<open>unicode/utf8\<close>: for a leading byte, the
  length of the sequence and the range allowed for its second byte; \<open>None\<close> for a byte
  that starts no multi-byte sequence.
\<close>

definition firstInfo :: "nat \<Rightarrow> (nat \<times> nat \<times> nat) option" where
  "firstInfo p0 =
     (if p0 < 0xC2 then None
      else if p0 \<le> 0xDF then Some (2, 0x80, 0xBF)
      else if p0 = 0xE0 then Some (3, 0xA0, 0xBF)
      else if p0 = 0xED then Some (3, 0x80, 0x9F)
      else if p0 \<le> 0xEF then Some (3, 0x80, 0xBF)
      else if p0 = 0xF0 then Some (4, 0x90, 0xBF)
      else if p0 \<le> 0xF3 then Some (4, 0x80, 0xBF)
      else if p0 = 0xF4 then Some (4, 0x80, 0x8F)
      else None)"

definition isCont :: "nat \<Rightarrow> bool" where
  "isCont b = (0x80 \<le> b \<and> b \<le> 0xBF)"

text \<open>\<open>utf8.DecodeRune\<close>: the first rune of the bytes and its width; an invalid or short
  sequence gives \<open>(RuneError, 1)\<close>, no bytes give \<open>(RuneError, 0)\<close>.\<close>

fun decodeRune :: "byte list \<Rightarrow> rune \<times> nat" where
  "decodeRune [] = (RuneError, 0)"
| "decodeRune (p0 # ps) =
     (if unat p0 < 0x80 then (runeOf (unat p0), 1)
      else case firstInfo (unat p0) of
        None \<Rightarrow> (RuneError, 1)
      | Some (sz, lo, hi) \<Rightarrow>
          if length (p0 # ps) < sz then (RuneError, 1)
          else let b1 = unat (ps ! 0) in
          if b1 < lo \<or> hi < b1 then (RuneError, 1)
          else if sz \<le> 2 then (runeOf (unat p0 mod 32 * 64 + b1 mod 64), 2)
          else let b2 = unat (ps ! 1) in
          if \<not> isCont b2 then (RuneError, 1)
          else if sz \<le> 3 then
            (runeOf (unat p0 mod 16 * 4096 + b1 mod 64 * 64 + b2 mod 64), 3)
          else let b3 = unat (ps ! 2) in
          if \<not> isCont b3 then (RuneError, 1)
          else (runeOf (unat p0 mod 8 * 262144 + b1 mod 64 * 4096 + b2 mod 64 * 64
                  + b3 mod 64), 4))"

text \<open>\<open>[]rune(string(b))\<close>, which is also what \<open>for _, r := range s\<close> visits.\<close>

function decodeRunes :: "byte list \<Rightarrow> rune list" where
  "decodeRunes [] = []"
| "decodeRunes (b # bs) =
     (case decodeRune (b # bs) of (r, n) \<Rightarrow> r # decodeRunes (drop n (b # bs)))"
  by pat_completeness auto
termination
  apply (relation "measure length")
   apply simp
  subgoal for b bs x y
    by (cases "decodeRune (b # bs)") (auto simp: Let_def split: option.splits if_splits)
  done

text \<open>\<open>utf8.RuneCount\<close>: an invalid byte counts as one rune.\<close>

definition runeLen :: "byte list \<Rightarrow> nat" where
  "runeLen bs = length (decodeRunes bs)"

text \<open>\<open>utf8.RuneLen\<close>: the number of bytes of the encoding of a rune, \<open>-1\<close> for a rune
  that is not valid.\<close>

definition RuneLen :: "rune \<Rightarrow> int" where
  "RuneLen r =
     (if sint r < 0 then -1
      else if sint r \<le> 0x7F then 1
      else if sint r \<le> 0x7FF then 2
      else if 0xD800 \<le> sint r \<and> sint r \<le> 0xDFFF then -1
      else if sint r \<le> 0xFFFF then 3
      else if sint r \<le> 0x10FFFF then 4
      else -1)"

text \<open>\<open>utf8.RuneStart\<close>: the byte is not a continuation byte.\<close>

definition RuneStart :: "byte \<Rightarrow> bool" where
  "RuneStart b = (unat b div 64 \<noteq> 2)"

text \<open>The backward scan of \<open>utf8.DecodeLastRune\<close>:
  \<open>for start--; start >= lim; start-- { if RuneStart(p[start]) { break } }\<close>,
  entered with \<open>start\<close> already decremented.\<close>

function scanBack :: "byte list \<Rightarrow> int \<Rightarrow> int \<Rightarrow> int" where
  "scanBack p lim start =
     (if lim \<le> start then
        (if RuneStart (p ! nat start) then start else scanBack p lim (start - 1))
      else start)"
  by pat_completeness auto
termination
  by (relation "measure (\<lambda>(p, lim, start). nat (start - lim + 1))") auto

declare scanBack.simps [simp del]

definition decodeLastRune :: "byte list \<Rightarrow> rune \<times> nat" where
  "decodeLastRune p =
     (let end = int (length p) in
      if end = 0 then (RuneError, 0)
      else
        let start0 = end - 1;
            r0 = p ! nat start0
        in if unat r0 < 0x80 then (runeOf (unat r0), 1)
        else
          let lim = (if end - 4 < 0 then 0 else end - 4);
              start1 = scanBack p lim (start0 - 1);
              start = (if start1 < 0 then 0 else start1);
              (r, size) = decodeRune (drop (nat start) p)
          in if start + int size \<noteq> end then (RuneError, 1) else (r, size))"

section \<open>Data model\<close>

text \<open>The Store calls that the post writer makes (package \<open>db\<close>).\<close>

datatype dbOp = OpSetOpenBody | OpHasImage | OpInsertImage | OpSpoilerImage
  | OpTransferImage | OpClosePost

text \<open>
  The errors of \<open>post_updates.go\<close> (\<open>errNoPostOpen\<close> ... \<open>errHasImage\<close>,
  \<open>errInvalidSpliceCoords\<close> with the body and the request, the anonymous
  "post does not have an image"), the two of package \<open>common\<close> that the file returns,
  and one value for each way a callee outside the file can fail: a message that does not
  decode, a rune the parser rejects, a failure of the parser, a Store call that fails, a
  token that names no staged image, and a slice expression out of range (a Go panic).
\<close>

datatype error =
    ErrNoPostOpen
  | ErrEmptyPost
  | ErrTooManyLines
  | ErrSpliceTooLong
  | ErrSpliceNOOP
  | ErrTextOnly
  | ErrHasImage
  | ErrInvalidSpliceCoords "byte list" "64 word" "64 word" "byte list"
  | ErrNoImage
  | ErrBodyTooLong
  | ErrContainsNull
  | ErrDecode
  | ErrNonPrintable rune
  | ErrParser
  | ErrStore dbOp
  | ErrInvalidToken
  | ErrPanic

text \<open>\<open>spliceCoords\<close> and \<open>spliceRequestString\<close>; \<open>uint\<close> is 64 bits wide.\<close>

record spliceCoords =
  Start :: "64 word"
  Len :: "64 word"

record spliceRequestString = spliceCoords +
  TextString :: "byte list"

record spliceRequest = spliceCoords +
  Text :: "rune list"

text \<open>\<open>common.Link\<close>, \<open>common.Command\<close> and \<open>common.Image\<close> are declared outside the
  file; only \<open>Link.ID\<close> is read here.\<close>

record link =
  ID :: nat
  OP :: nat
  Board :: string

datatype command = Command nat

record image =
  Name :: string
  File :: string
  Spoiler :: bool

record ImageRequest =
  ReqSpoiler :: bool
  ReqToken :: string
  ReqName :: string

text \<open>The messages the file encodes, by message type and payload.\<close>

datatype message =
    MessageAppend nat "64 word"
  | MessageBackspace nat
  | MessageSplice nat "64 word" "64 word" "byte list"
  | MessageInsertImage nat image
  | MessageSpoiler nat
  | MessageStoleImageFrom nat
  | MessageStoleImageTo nat image
  | MessageClosePost nat

text \<open>\<open>openPost\<close>: the fields of \<open>c.post\<close> that the file reads and writes.\<close>

record openPost =
  isSpoilered :: bool
  len :: int
  lines :: int
  id_post :: nat
  op :: nat
  body :: "byte list"
  board :: string

text \<open>The zero value \<open>openPost{}\<close>.\<close>

definition emptyPost :: openPost where
  "emptyPost = \<lparr>isSpoilered = False, len = 0, lines = 0, id_post = 0, op = 0, body = [],
     board = []\<rparr>"

record client =
  post :: openPost
  ip :: string
  captchaSession :: string

text \<open>The thread's Feed: the mirror of the open bodies and the messages broadcast so
  far, oldest first.\<close>

record feed =
  mirror :: "nat \<rightharpoonup> byte list"
  sent :: "message list"

text \<open>The Store, as far as the post writer reaches it.\<close>

record store =
  openBodies :: "nat \<rightharpoonup> byte list"
  spamByIP :: "string \<Rightarrow> nat"
  spamBySession :: "string \<Rightarrow> nat"
  images :: "nat \<rightharpoonup> image"
  staged :: "string \<rightharpoonup> string"
  closedPosts :: "nat \<rightharpoonup> byte list \<times> link list \<times> command list"
  backlog :: "message list"

record world =
  cl :: client
  fd :: feed
  st :: store

text \<open>
  What the file takes from packages that are outside it: the limits of package
  \<open>common\<close>, the scores and the board flag of package \<open>config\<close>, the functions of
  package \<open>parser\<close> and \<open>formatImageName\<close>. The last argument of \<open>ParseBody\<close> is the
  flag that \<open>closePost\<close> passes literally.
\<close>

record config =
  MaxLenBody :: nat
  MaxLinesBody :: nat
  CharScore :: nat
  ImageScore :: nat
  TextOnly :: "string \<Rightarrow> bool"
  IsPrintable :: "rune \<Rightarrow> bool \<Rightarrow> error option"
  RegisterFilter :: "nat \<Rightarrow> byte list \<Rightarrow> bool"
  ApplyFilters :: "nat \<Rightarrow> byte list \<Rightarrow> bool \<times> byte list"
  ParseBody :: "byte list \<Rightarrow> string \<Rightarrow> nat \<Rightarrow> nat \<Rightarrow> string \<Rightarrow> bool
                 \<Rightarrow> error + (link list \<times> command list)"
  formatImageName :: "string \<Rightarrow> string"

text \<open>Which Store calls fail with a transport error during one operation.\<close>

type_synonym faults = "dbOp \<Rightarrow> bool"

definition setPost :: "openPost \<Rightarrow> world \<Rightarrow> world" where
  "setPost p w = w\<lparr>cl := (cl w)\<lparr>post := p\<rparr>\<rparr>"

section \<open>Callees outside the file\<close>

text \<open>
  Modelled from the spec: \<open>Client.hasPost\<close> is called by every operation but
  \<open>closePost\<close> and is not in the file. The spec has the operations fail with
  \<open>no_post_open\<close> when the Client has no OpenPost; \<open>closePost\<close> and the reset
  \<open>c.post = openPost{}\<close> show that "no open post" is \<open>c.post.id == 0\<close>.
\<close>

definition hasPost :: "client \<Rightarrow> bool \<times> error option" where
  "hasPost c = (if id_post (post c) = 0 then (False, Some ErrNoPostOpen) else (True, None))"

text \<open>
  Modelled from the spec: \<open>common.EncodeMessage\<close> is not in the file. It marshals the
  payload as JSON behind the message type; for the payloads of this file (unsigned
  integers, strings and structs of them) marshalling has no failing case.
\<close>

definition EncodeMessage :: "message \<Rightarrow> error + message" where
  "EncodeMessage m = Inr m"

text \<open>
  Modelled from the spec: \<open>openPost.countLines\<close> is not in the file; the spec has the
  lines recounted from scratch after a splice, as the number of newlines of the body.
\<close>

definition countNewlines :: "byte list \<Rightarrow> nat" where
  "countNewlines bs = length (filter (\<lambda>b. b = 0x0A) bs)"

definition countLines :: "openPost \<Rightarrow> openPost" where
  "countLines p = p\<lparr>lines := int (countNewlines (body p))\<rparr>"

text \<open>
  Modelled from the spec: \<open>parser.IsPrintableRunes\<close> is not in the file; a text is
  rejected when any of its runes is, with the error of the first one.
\<close>

fun IsPrintableRunes :: "config \<Rightarrow> rune list \<Rightarrow> bool \<Rightarrow> error option" where
  "IsPrintableRunes cfg [] multiline = None"
| "IsPrintableRunes cfg (r # rs) multiline =
     (case IsPrintable cfg r multiline of
        Some e \<Rightarrow> Some e
      | None \<Rightarrow> IsPrintableRunes cfg rs multiline)"

text \<open>
  Modelled from the spec: package \<open>db\<close> is not under src. \<open>IncrementSpamScore\<close> adds
  the score to the counters of the IP and of the captcha session. Every other call
  fails with a transport error when the operation's \<open>faults\<close> say so, and then
  changes nothing.
\<close>

definition db_IncrementSpamScore :: "string \<Rightarrow> string \<Rightarrow> nat \<Rightarrow> store \<Rightarrow> store" where
  "db_IncrementSpamScore session addr score s =
     s\<lparr>spamByIP := (spamByIP s)(addr := spamByIP s addr + score),
       spamBySession := (spamBySession s)(session := spamBySession s session + score)\<rparr>"

definition db_SetOpenBody :: "faults \<Rightarrow> nat \<Rightarrow> byte list \<Rightarrow> store \<Rightarrow> error option \<times> store" where
  "db_SetOpenBody f n b s =
     (if f OpSetOpenBody then (Some (ErrStore OpSetOpenBody), s)
      else (None, s\<lparr>openBodies := (openBodies s)(n \<mapsto> b)\<rparr>))"

definition db_HasImage :: "faults \<Rightarrow> nat \<Rightarrow> store \<Rightarrow> error + bool" where
  "db_HasImage f n s =
     (if f OpHasImage then Inl (ErrStore OpHasImage) else Inr (images s n \<noteq> None))"

text \<open>\<open>InsertImage\<close> claims the image staged under the token and binds it to the post;
  its message is the image view.\<close>

definition db_InsertImage ::
  "faults \<Rightarrow> nat \<Rightarrow> string \<Rightarrow> string \<Rightarrow> bool \<Rightarrow> store \<Rightarrow> error + (image \<times> store)" where
  "db_InsertImage f n token name spoiler s =
     (if f OpInsertImage then Inl (ErrStore OpInsertImage)
      else case staged s token of
        None \<Rightarrow> Inl ErrInvalidToken
      | Some file \<Rightarrow>
          let img = \<lparr>Name = name, File = file, Spoiler = spoiler\<rparr>
          in Inr (img, s\<lparr>images := (images s)(n \<mapsto> img),
                         staged := (staged s)(token := None)\<rparr>))"

definition db_SpoilerImage :: "faults \<Rightarrow> nat \<Rightarrow> nat \<Rightarrow> store \<Rightarrow> error option \<times> store" where
  "db_SpoilerImage f n thread s =
     (if f OpSpoilerImage then (Some (ErrStore OpSpoilerImage), s)
      else (None, s\<lparr>images := (case images s n of
                                   None \<Rightarrow> images s
                                 | Some img \<Rightarrow> (images s)(n \<mapsto> img\<lparr>Spoiler := True\<rparr>))\<rparr>))"

text \<open>\<open>TransferImage\<close> moves the image of post \<open>from\<close>, when it has one, to post \<open>to\<close>
  and returns it.\<close>

definition db_TransferImage ::
  "faults \<Rightarrow> nat \<Rightarrow> nat \<Rightarrow> nat \<Rightarrow> store \<Rightarrow> error + (image option \<times> store)" where
  "db_TransferImage f from to thread s =
     (if f OpTransferImage then Inl (ErrStore OpTransferImage)
      else case images s from of
        None \<Rightarrow> Inr (None, s)
      | Some img \<Rightarrow> Inr (Some img, s\<lparr>images := (images s)(from := None, to \<mapsto> img)\<rparr>))"

text \<open>\<open>ClosePost\<close> writes the final body with its links and commands, deletes the
  open-body key and logs the close.\<close>

definition db_ClosePost ::
  "faults \<Rightarrow> nat \<Rightarrow> nat \<Rightarrow> byte list \<Rightarrow> link list \<Rightarrow> command list \<Rightarrow> store
     \<Rightarrow> error option \<times> store" where
  "db_ClosePost f n thread b links com s =
     (if f OpClosePost then (Some (ErrStore OpClosePost), s)
      else (None, s\<lparr>closedPosts := (closedPosts s)(n \<mapsto> (b, links, com)),
                     openBodies := (openBodies s)(n := None),
                     backlog := backlog s @ [MessageClosePost n]\<rparr>))"

text \<open>Modelled from the spec: the Feed is not under src. \<open>SetOpenBody\<close> updates the
  mirror and broadcasts; the other three calls broadcast.\<close>

definition feed_SetOpenBody :: "nat \<Rightarrow> byte list \<Rightarrow> message \<Rightarrow> feed \<Rightarrow> feed" where
  "feed_SetOpenBody n b msg fe = fe\<lparr>mirror := (mirror fe)(n \<mapsto> b), sent := sent fe @ [msg]\<rparr>"

definition feed_Send :: "message \<Rightarrow> feed \<Rightarrow> feed" where
  "feed_Send msg fe = fe\<lparr>sent := sent fe @ [msg]\<rparr>"

definition feed_InsertImage :: "nat \<Rightarrow> bool \<Rightarrow> message \<Rightarrow> feed \<Rightarrow> feed" where
  "feed_InsertImage n spoiler msg fe = fe\<lparr>sent := sent fe @ [msg]\<rparr>"

definition feed_SpoilerImage :: "nat \<Rightarrow> message \<Rightarrow> feed \<Rightarrow> feed" where
  "feed_SpoilerImage n msg fe = fe\<lparr>sent := sent fe @ [msg]\<rparr>"

text \<open>\<open>bytes.Contains\<close>.\<close>

fun isPrefix :: "byte list \<Rightarrow> byte list \<Rightarrow> bool" where
  "isPrefix [] ys = True"
| "isPrefix (x # xs) [] = False"
| "isPrefix (x # xs) (y # ys) = (x = y \<and> isPrefix xs ys)"

fun bytesContains :: "byte list \<Rightarrow> byte list \<Rightarrow> bool" where
  "bytesContains [] sub = isPrefix sub []"
| "bytesContains (b # bs) sub = (isPrefix sub (b # bs) \<or> bytesContains bs sub)"

section \<open>The operations of \<open>post_updates.go\<close>\<close>

text \<open>\<open>spliceRequest.UnmarshalJSON\<close>, from the outcome of \<open>json.Unmarshal\<close> into a
  \<open>spliceRequestString\<close>.\<close>

definition UnmarshalJSON :: "error + spliceRequestString \<Rightarrow> error + spliceRequest" where
  "UnmarshalJSON tmp =
     (case tmp of
        Inl e \<Rightarrow> Inl e
      | Inr t \<Rightarrow> Inr \<lparr>Start = Start t, Len = Len t, Text = decodeRunes (TextString t)\<rparr>)"

definition incrementSpamScore :: "nat \<Rightarrow> world \<Rightarrow> world" where
  "incrementSpamScore score w =
     w\<lparr>st := db_IncrementSpamScore (captchaSession (cl w)) (ip (cl w)) score (st w)\<rparr>"

definition updateBody :: "config \<Rightarrow> faults \<Rightarrow> message \<Rightarrow> int \<Rightarrow> world \<Rightarrow> error option \<times> world" where
  "updateBody cfg f msg n w =
     (let p = post (cl w);
          w1 = w\<lparr>fd := feed_SetOpenBody (id_post p) (body p) msg (fd w)\<rparr>;
          w2 = incrementSpamScore (nat n * CharScore cfg) w1;
          (err, s) = db_SetOpenBody f (id_post p) (body p) (st w2)
      in (err, w2\<lparr>st := s\<rparr>))"

text \<open>\<open>appendRune\<close>; \<open>data\<close> is the outcome of \<open>decodeMessage(data, &char)\<close>.\<close>

definition appendRune :: "config \<Rightarrow> faults \<Rightarrow> error + rune \<Rightarrow> world \<Rightarrow> error option \<times> world" where
  "appendRune cfg f data w =
     (let (has, err) = hasPost (cl w); p = post (cl w) in
      if err \<noteq> None then (err, w)
      else if \<not> has then (None, w)
      else if len p + 1 > int (MaxLenBody cfg) then (Some ErrBodyTooLong, w)
      else case data of
        Inl e \<Rightarrow> (Some e, w)
      | Inr char \<Rightarrow>
          if char = 0 then (Some ErrContainsNull, w)
          else
            let p1 = (if char = 0x0A then p\<lparr>lines := lines p + 1\<rparr> else p) in
            if char = 0x0A \<and> lines p1 > int (MaxLinesBody cfg)
            then (Some ErrTooManyLines, setPost p1 w)
            else case IsPrintable cfg char True of
              Some e \<Rightarrow> (Some e, setPost p1 w)
            | None \<Rightarrow>
                (case EncodeMessage (MessageAppend (id_post p1) (scast char)) of
                   Inl e \<Rightarrow> (Some e, setPost p1 w)
                 | Inr msg \<Rightarrow>
                     let p2 = p1\<lparr>body := body p1 @ encodeRune char\<rparr>;
                         p3 = p2\<lparr>len := len p2 + 1\<rparr>
                     in updateBody cfg f msg 1 (setPost p3 w)))"

definition backspace :: "config \<Rightarrow> faults \<Rightarrow> world \<Rightarrow> error option \<times> world" where
  "backspace cfg f w =
     (let (has, err) = hasPost (cl w); p = post (cl w) in
      if err \<noteq> None then (err, w)
      else if \<not> has then (None, w)
      else if len p = 0 then (Some ErrEmptyPost, w)
      else case EncodeMessage (MessageBackspace (id_post p)) of
        Inl e \<Rightarrow> (Some e, w)
      | Inr msg \<Rightarrow>
          let (r, lastRuneLen) = decodeLastRune (body p);
              p1 = p\<lparr>body := take (length (body p) - lastRuneLen) (body p)\<rparr>;
              p2 = (if r = 0x0A then p1\<lparr>lines := lines p1 - 1\<rparr> else p1);
              p3 = p2\<lparr>len := len p2 - 1\<rparr>
          in updateBody cfg f msg 1 (setPost p3 w))"

text \<open>The steal of \<open>closePost\<close>: board "a", a link, and \<open>#steal\<close> in the body.\<close>

definition stealImage :: "config \<Rightarrow> faults \<Rightarrow> link list \<Rightarrow> world \<Rightarrow> error option \<times> world" where
  "stealImage cfg f links w =
     (let p = post (cl w) in
      if board p = ''a'' \<and> length links \<noteq> 0 \<and> bytesContains (body p) [0x23, 0x73, 0x74, 0x65, 0x61, 0x6C]
      then
        let from = ID (last links) in
        case db_TransferImage f from (id_post p) (op p) (st w) of
          Inl e \<Rightarrow> (Some e, w)
        | Inr (None, s) \<Rightarrow> (None, w\<lparr>st := s\<rparr>)
        | Inr (Some img, s) \<Rightarrow>
            let w1 = incrementSpamScore (ImageScore cfg) (w\<lparr>st := s\<rparr>) in
            (case EncodeMessage (MessageStoleImageFrom from) of
               Inl e \<Rightarrow> (Some e, w1)
             | Inr msg \<Rightarrow>
                 let w2 = w1\<lparr>fd := feed_Send msg (fd w1)\<rparr> in
                 (case EncodeMessage (MessageStoleImageTo (id_post p) img) of
                    Inl e \<Rightarrow> (Some e, w2)
                  | Inr msg2 \<Rightarrow> (None, w2\<lparr>fd := feed_Send msg2 (fd w2)\<rparr>)))
      else (None, w))"

text \<open>The filters of \<open>closePost\<close>: \<open>ApplyFilters\<close> rewrites \<open>c.post.body\<close> through the
  pointer; a change is broadcast as a splice of the whole old body, by its length in
  bytes.\<close>

definition closeFilters :: "config \<Rightarrow> world \<Rightarrow> error option \<times> world" where
  "closeFilters cfg w =
     (let p = post (cl w) in
      if \<not> RegisterFilter cfg (op p) (body p) then
        let oldLen = length (body p);
            (modified, b) = ApplyFilters cfg (op p) (body p);
            w1 = setPost (p\<lparr>body := b\<rparr>) w
        in if modified then
             (case EncodeMessage (MessageSplice (id_post p) 0 (of_nat oldLen) b) of
                Inl e \<Rightarrow> (Some e, w1)
              | Inr msg \<Rightarrow> (None, w1\<lparr>fd := feed_SetOpenBody (id_post p) b msg (fd w1)\<rparr>))
           else (None, w1)
      else (None, w))"

definition closePost :: "config \<Rightarrow> faults \<Rightarrow> world \<Rightarrow> error option \<times> world" where
  "closePost cfg f w =
     (if id_post (post (cl w)) = 0 then (Some ErrNoPostOpen, w)
      else
        let (err, links, com, w3) =
          (if len (post (cl w)) \<noteq> 0 then
             (case closeFilters cfg w of
                (Some e, w1) \<Rightarrow> (Some e, [], [], w1)
              | (None, w1) \<Rightarrow>
                  let p = post (cl w1) in
                  (case ParseBody cfg (body p) (board p) (op p) (id_post p) (ip (cl w1)) False of
                     Inl e \<Rightarrow> (Some e, [], [], w1)
                   | Inr (links, com) \<Rightarrow>
                       (case stealImage cfg f links w1 of
                          (err, w2) \<Rightarrow> (err, links, com, w2))))
           else (None, [], [], w))
        in if err \<noteq> None then (err, w3)
        else
          let p = post (cl w3);
              (err2, s) = db_ClosePost f (id_post p) (op p) (body p) links com (st w3)
          in if err2 \<noteq> None then (err2, w3\<lparr>st := s\<rparr>)
             else (None, setPost emptyPost (w3\<lparr>st := s\<rparr>)))"

text \<open>The validation switch of \<open>spliceText\<close> and the loop that rejects a NUL.\<close>

definition spliceValidate :: "config \<Rightarrow> openPost \<Rightarrow> spliceRequest \<Rightarrow> error option" where
  "spliceValidate cfg p req =
     (if unat (Start req) > MaxLenBody cfg \<or> unat (Len req) > MaxLenBody cfg
         \<or> sint (Start req + Len req) > len p
      then Some (ErrInvalidSpliceCoords (body p) (Start req) (Len req) (encodeRunes (Text req)))
      else if Len req = 0 \<and> length (Text req) = 0 then Some ErrSpliceNOOP
      else if length (Text req) > MaxLenBody cfg then Some ErrSpliceTooLong
      else if 0 \<in> set (Text req) then Some ErrContainsNull
      else None)"

text \<open>
  The rest of \<open>spliceText\<close>, from \<open>old = []rune(string(c.post.body))\<close> on. A slice
  expression out of range is \<open>ErrPanic\<close>, with the state as it is at that line.
\<close>

definition spliceApply :: "config \<Rightarrow> faults \<Rightarrow> spliceRequest \<Rightarrow> world \<Rightarrow> error option \<times> world" where
  "spliceApply cfg f req w =
     (let p = post (cl w);
          old = decodeRunes (body p);
          k = unat (Start req + Len req)
      in if length old < k then (Some ErrPanic, w)
      else
        let end0 = Text req @ drop k old;
            len1 = len p + (- sint (Len req) + int (length (Text req)));
            exceeding = len1 - int (MaxLenBody cfg)
        in if 0 < exceeding \<and>
              (int (length end0) - exceeding < 0 \<or> sint (Start req) < 0
               \<or> int (length old) < sint (Start req))
           then (Some ErrPanic, setPost (p\<lparr>len := len1\<rparr>) w)
        else
          let end1 = (if 0 < exceeding then take (nat (int (length end0) - exceeding)) end0
                      else end0);
              resLen = (if 0 < exceeding then of_nat (length (drop (nat (sint (Start req))) old))
                        else Len req);
              resText = (if 0 < exceeding then encodeRunes end1 else encodeRunes (Text req));
              len2 = (if 0 < exceeding then int (MaxLenBody cfg) else len1)
          in case EncodeMessage (MessageSplice (id_post p) (Start req) resLen resText) of
            Inl e \<Rightarrow> (Some e, setPost (p\<lparr>len := len2\<rparr>) w)
          | Inr msg \<Rightarrow>
              if length old < unat (Start req) then (Some ErrPanic, setPost (p\<lparr>len := len2\<rparr>) w)
              else
                let byteStartPos = sum_list (map RuneLen (take (unat (Start req)) old)) in
                if byteStartPos < 0 \<or> int (length (body p)) < byteStartPos
                then (Some ErrPanic, setPost (p\<lparr>len := len2\<rparr>) w)
                else
                  let p1 = p\<lparr>len := len2,
                             body := take (nat byteStartPos) (body p) @ encodeRunes end1\<rparr>;
                      p2 = countLines p1
                  in if lines p2 > int (MaxLinesBody cfg) then (Some ErrTooManyLines, setPost p2 w)
                     else updateBody cfg f msg (int (length resText) + 1) (setPost p2 w))"

text \<open>\<open>spliceText\<close>; \<open>data\<close> is the outcome of \<open>json.Unmarshal\<close> on the message.\<close>

definition spliceText ::
  "config \<Rightarrow> faults \<Rightarrow> error + spliceRequestString \<Rightarrow> world \<Rightarrow> error option \<times> world" where
  "spliceText cfg f data w =
     (let (has, err) = hasPost (cl w) in
      if err \<noteq> None then (err, w)
      else if \<not> has then (None, w)
      else case UnmarshalJSON data of
        Inl e \<Rightarrow> (Some e, w)
      | Inr req \<Rightarrow>
          (case IsPrintableRunes cfg (Text req) True of
             Some e \<Rightarrow> (Some e, w)
           | None \<Rightarrow>
               (case spliceValidate cfg (post (cl w)) req of
                  Some e \<Rightarrow> (Some e, w)
                | None \<Rightarrow> spliceApply cfg f req w)))"

text \<open>\<open>hasImage\<close>: the Store decides; without an image the spoiler flag is cleared.\<close>

definition hasImage :: "faults \<Rightarrow> world \<Rightarrow> (error + bool) \<times> world" where
  "hasImage f w =
     (case db_HasImage f (id_post (post (cl w))) (st w) of
        Inl e \<Rightarrow> (Inl e, w)
      | Inr has \<Rightarrow>
          if \<not> has then (Inr has, setPost ((post (cl w))\<lparr>isSpoilered := False\<rparr>) w)
          else (Inr has, w))"

text \<open>\<open>insertImage\<close>; \<open>data\<close> is the outcome of \<open>decodeMessage(data, &req)\<close>.\<close>

definition insertImage ::
  "config \<Rightarrow> faults \<Rightarrow> error + ImageRequest \<Rightarrow> world \<Rightarrow> error option \<times> world" where
  "insertImage cfg f data w =
     (let w0 = incrementSpamScore (CharScore cfg) w;
          (has, err) = hasPost (cl w0)
      in if err \<noteq> None then (err, w0)
      else if \<not> has then (Some ErrNoPostOpen, w0)
      else case hasImage f w0 of
        (Inl e, w1) \<Rightarrow> (Some e, w1)
      | (Inr True, w1) \<Rightarrow> (None, w1)
      | (Inr False, w1) \<Rightarrow>
          (case data of
             Inl e \<Rightarrow> (Some e, w1)
           | Inr req \<Rightarrow>
               let p = post (cl w1) in
               if TextOnly cfg (board p) then (Some ErrTextOnly, w1)
               else
                 let name = formatImageName cfg (ReqName req) in
                 (case db_InsertImage f (id_post p) (ReqToken req) name (ReqSpoiler req) (st w1) of
                    Inl e \<Rightarrow> (Some e, w1)
                  | Inr (img, s) \<Rightarrow>
                      let w2 = setPost (p\<lparr>isSpoilered := ReqSpoiler req\<rparr>) (w1\<lparr>st := s\<rparr>)
                      in (None, w2\<lparr>fd := feed_InsertImage (id_post p) (ReqSpoiler req)
                                          (MessageInsertImage (id_post p) img) (fd w2)\<rparr>))))"

definition spoilerImage :: "config \<Rightarrow> faults \<Rightarrow> world \<Rightarrow> error option \<times> world" where
  "spoilerImage cfg f w =
     (let w0 = incrementSpamScore (CharScore cfg) w;
          (has, err) = hasPost (cl w0)
      in if err \<noteq> None then (err, w0)
      else if \<not> has then (Some ErrNoPostOpen, w0)
      else case hasImage f w0 of
        (Inl e, w1) \<Rightarrow> (Some e, w1)
      | (Inr False, w1) \<Rightarrow> (Some ErrNoImage, w1)
      | (Inr True, w1) \<Rightarrow>
          let p = post (cl w1) in
          if isSpoilered p then (None, w1)
          else
            (case db_SpoilerImage f (id_post p) (op p) (st w1) of
               (Some e, s) \<Rightarrow> (Some e, w1\<lparr>st := s\<rparr>)
             | (None, s) \<Rightarrow>
                 (case EncodeMessage (MessageSpoiler (id_post p)) of
                    Inl e \<Rightarrow> (Some e, w1\<lparr>st := s\<rparr>)
                  | Inr msg \<Rightarrow>
                      (None, w1\<lparr>st := s, fd := feed_SpoilerImage (id_post p) msg (fd w1)\<rparr>))))"

section \<open>The state of an open post\<close>

text \<open>\<open>utf8.Valid\<close>: decoding meets no invalid byte, so that encoding the runes
  gives the bytes back.\<close>

definition validUTF8 :: "byte list \<Rightarrow> bool" where
  "validUTF8 bs = (encodeRunes (decodeRunes bs) = bs)"

text \<open>An open post whose text is in order: the body is UTF-8, \<open>len\<close> is its length in
  runes, and no rune of it is NUL.\<close>

definition postOK :: "openPost \<Rightarrow> bool" where
  "postOK p = (validUTF8 (body p) \<and> len p = int (runeLen (body p))
     \<and> 0 \<notin> set (decodeRunes (body p)))"

text \<open>The limits on an open post: \<open>lines\<close> is the number of newlines of the body and
  is at most \<open>MaxLinesBody\<close>; the body has at most \<open>MaxLenBody\<close> runes.\<close>

definition postInLimits :: "config \<Rightarrow> openPost \<Rightarrow> bool" where
  "postInLimits cfg p = (lines p = int (countNewlines (body p))
     \<and> lines p \<le> int (MaxLinesBody cfg) \<and> runeLen (body p) \<le> MaxLenBody cfg)"

text \<open>The splice as the spec words it, on runes: \<open>body[0:s] + t + body[s+l:]\<close>,
  then the tail trimmed to the cap.\<close>

definition spec_splice :: "nat \<Rightarrow> rune list \<Rightarrow> nat \<Rightarrow> nat \<Rightarrow> rune list \<Rightarrow> rune list" where
  "spec_splice cap b s l t = take cap (take s b @ t @ drop (s + l) b)"

section \<open>Sequences of operations\<close>

datatype request =
    AppendRune "error + rune"
  | Backspace
  | SpliceText "error + spliceRequestString"

fun exec :: "config \<Rightarrow> faults \<times> request \<Rightarrow> world \<Rightarrow> error option \<times> world" where
  "exec cfg (f, AppendRune data) w = appendRune cfg f data w"
| "exec cfg (f, Backspace) w = backspace cfg f w"
| "exec cfg (f, SpliceText data) w = spliceText cfg f data w"

text \<open>The state after the requests, each run on the state the one before left, whether
  it failed or not.\<close>

fun run :: "config \<Rightarrow> (faults \<times> request) list \<Rightarrow> world \<Rightarrow> world" where
  "run cfg [] w = w"
| "run cfg (x # xs) w = run cfg xs (snd (exec cfg x w))"

text \<open>Every request of the sequence returns no error.\<close>

fun allSucceed :: "config \<Rightarrow> (faults \<times> request) list \<Rightarrow> world \<Rightarrow> bool" where
  "allSucceed cfg [] w = True"
| "allSucceed cfg (x # xs) w =
     (fst (exec cfg x w) = None \<and> allSucceed cfg xs (snd (exec cfg x w)))"

section \<open>Concrete inputs\<close>

text \<open>A configuration: the limits 2000 and 100, a parser that rejects control characters
  other than tab and newline, no filters, no links.\<close>

definition printable0 :: "rune \<Rightarrow> bool \<Rightarrow> error option" where
  "printable0 r multiline =
     (if r = 0x0A then (if multiline then None else Some (ErrNonPrintable r))
      else if r = 0x09 then None
      else if unat r < 0x20 \<or> r = 0x7F then Some (ErrNonPrintable r)
      else None)"

definition cfg0 :: config where
  "cfg0 = \<lparr>MaxLenBody = 2000, MaxLinesBody = 100, CharScore = 1, ImageScore = 10,
     TextOnly = (\<lambda>b. False), IsPrintable = printable0,
     RegisterFilter = (\<lambda>t b. False), ApplyFilters = (\<lambda>t b. (False, b)),
     ParseBody = (\<lambda>b brd t n addr flag. Inr ([], [])),
     formatImageName = (\<lambda>s. s)\<rparr>"

definition nofault :: faults where
  "nofault = (\<lambda>_. False)"

definition feed0 :: feed where
  "feed0 = \<lparr>mirror = Map.empty, sent = []\<rparr>"

definition store0 :: store where
  "store0 = \<lparr>openBodies = Map.empty, spamByIP = (\<lambda>_. 0), spamBySession = (\<lambda>_. 0),
     images = Map.empty, staged = Map.empty, closedPosts = Map.empty, backlog = []\<rparr>"

text \<open>Post 101 of thread 42 on board "g", open with the given body, rune length and line
  count.\<close>

definition post0 :: "byte list \<Rightarrow> int \<Rightarrow> int \<Rightarrow> openPost" where
  "post0 b n l = \<lparr>isSpoilered = False, len = n, lines = l, id_post = 101, op = 42, body = b,
     board = ''g''\<rparr>"

definition world0 :: "openPost \<Rightarrow> store \<Rightarrow> world" where
  "world0 p s = \<lparr>cl = \<lparr>post = p, ip = ''10.0.0.1'', captchaSession = ''s1''\<rparr>, fd = feed0,
     st = s\<rparr>"

text \<open>An image, and a Store in which post 101 has it.\<close>

definition image0 :: image where
  "image0 = \<lparr>Name = ''cat'', File = ''f1.png'', Spoiler = False\<rparr>"

definition storeImg :: store where
  "storeImg = store0\<lparr>images := [101 \<mapsto> image0]\<rparr>"

text \<open>A Store with an upload staged under the token "tok", and a request for it.\<close>

definition storeStaged :: store where
  "storeStaged = store0\<lparr>staged := [''tok'' \<mapsto> ''f2.png'']\<rparr>"

definition imageReq :: "bool \<Rightarrow> ImageRequest" where
  "imageReq sp = \<lparr>ReqSpoiler = sp, ReqToken = ''tok'', ReqName = ''dog''\<rparr>"

text \<open>The client's view after its image was taken away: the Store has no image for
  post 101, the flag \<open>isSpoilered\<close> is still set, and a new upload is staged.\<close>

definition worldStale :: world where
  "worldStale = world0 ((post0 [0x68, 0x69] 2 0)\<lparr>isSpoilered := True\<rparr>) storeStaged"

text \<open>The body "hello".\<close>

definition bodyHello :: "byte list" where
  "bodyHello = [0x68, 0x65, 0x6C, 0x6C, 0x6F]"

text \<open>The request to splice "EY" over three runes from position 1.\<close>

definition spliceEY :: spliceRequestString where
  "spliceEY = \<lparr>Start = 1, Len = 3, TextString = [0x45, 0x59]\<rparr>"

text \<open>A body of 1998 letters "a", two runes short of the cap of \<open>cfg0\<close>, and the
  request to insert the ten digits at its start.\<close>

definition bodyA :: "byte list" where
  "bodyA = replicate 1998 0x61"

definition digits :: "byte list" where
  "digits = [0x30, 0x31, 0x32, 0x33, 0x34, 0x35, 0x36, 0x37, 0x38, 0x39]"

definition spliceDigits :: spliceRequestString where
  "spliceDigits = \<lparr>Start = 0, Len = 0, TextString = digits\<rparr>"

text \<open>A body of 100 newlines: as many lines as \<open>cfg0\<close> allows.\<close>

definition bodyLines :: "byte list" where
  "bodyLines = replicate 100 0x0A"

text \<open>Four requests: append the euro sign, splice "EY" over three runes from
  position 1, append NUL (which fails), backspace.\<close>

definition steps0 :: "(faults \<times> request) list" where
  "steps0 =
     [(nofault, AppendRune (Inr 0x20AC)),
      (nofault, SpliceText (Inr spliceEY)),
      (nofault, AppendRune (Inr 0)),
      (nofault, Backspace)]"

text \<open>The body "hi", and a parser whose links depend on its last argument.\<close>

definition bodyHi :: "byte list" where
  "bodyHi = [0x68, 0x69]"

definition link0 :: link where
  "link0 = \<lparr>ID = 7, OP = 42, Board = ''g''\<rparr>"

definition cfgFlag :: config where
  "cfgFlag = cfg0\<lparr>ParseBody := (\<lambda>b brd t n addr flag. Inr (if flag then [link0] else [], []))\<rparr>"

section \<open>UTF-8: encoding and decoding\<close>

lemma unat_byte: "n < 256 \<Longrightarrow> unat (byteOf n) = n"
  by (simp add: byteOf_def unat_of_nat)

lemma runeOf_unat: "runeOf (unat r) = r"
  by (simp add: runeOf_def)

lemma unat_runeOf: "n < 2 ^ 32 \<Longrightarrow> unat (runeOf n) = n"
  by (simp add: runeOf_def unat_of_nat)

lemma mod_offset: "d < n \<Longrightarrow> (k * n + d) mod n = (d::nat)"
  by simp

lemma lead2_mod: "d < 32 \<Longrightarrow> (192 + d) mod 32 = (d::nat)"
  using mod_offset[of d 32 6] by simp

lemma lead3_mod: "d < 16 \<Longrightarrow> (224 + d) mod 16 = (d::nat)"
  using mod_offset[of d 16 14] by simp

lemma lead4_mod: "d < 8 \<Longrightarrow> (240 + d) mod 8 = (d::nat)"
  using mod_offset[of d 8 30] by simp

lemma cont_mod: "d < 64 \<Longrightarrow> (128 + d) mod 64 = (d::nat)"
  using mod_offset[of d 64 2] by simp

lemma base64_2: "(i::nat) = i div 64 * 64 + i mod 64"
  by simp

lemma base64_3: "(i::nat) = i div 4096 * 4096 + i div 64 mod 64 * 64 + i mod 64"
proof -
  have "i div 4096 = i div 64 div 64" by (simp add: div_mult2_eq)
  then have "i div 64 = i div 4096 * 64 + i div 64 mod 64" by simp
  then show ?thesis using base64_2[of i] by linarith
qed

lemma base64_4:
  "(i::nat) = i div 262144 * 262144 + i div 4096 mod 64 * 4096 + i div 64 mod 64 * 64 + i mod 64"
proof -
  have "i div 262144 = i div 4096 div 64" by (simp add: div_mult2_eq)
  then have "i div 4096 = i div 262144 * 64 + i div 4096 mod 64" by simp
  then show ?thesis using base64_3[of i] by linarith
qed

lemma decodeRune_2:
  assumes "unat p0 = 192 + d" "2 \<le> d" "d < 32" "unat b1 = 128 + m" "m < 64"
  shows "decodeRune (p0 # b1 # rest) = (runeOf (d * 64 + m), 2)"
proof -
  have f: "firstInfo (192 + d) = Some (2, 0x80, 0xBF)"
    using assms by (simp add: firstInfo_def)
  show ?thesis using assms by (simp add: f lead2_mod cont_mod)
qed

lemma decodeRune_3:
  assumes "unat p0 = 224 + a" "a < 16" "unat b1 = 128 + b" "b < 64"
    "unat b2 = 128 + c" "c < 64" "a = 0 \<longrightarrow> 32 \<le> b" "a = 13 \<longrightarrow> b < 32"
  shows "decodeRune (p0 # b1 # b2 # rest) = (runeOf (a * 4096 + b * 64 + c), 3)"
proof -
  obtain lo hi where f: "firstInfo (224 + a) = Some (3, lo, hi)"
    and lo: "lo = (if a = 0 then 0xA0 else 0x80)" and hi: "hi = (if a = 13 then 0x9F else 0xBF)"
    using assms(2) by (simp add: firstInfo_def)
  have r: "\<not> (128 + b < lo \<or> hi < 128 + b)" using assms lo hi by auto
  show ?thesis using assms r by (simp add: f lead3_mod cont_mod isCont_def)
qed

lemma decodeRune_4:
  assumes "unat p0 = 240 + a" "a \<le> 4" "unat b1 = 128 + b" "b < 64"
    "unat b2 = 128 + c" "c < 64" "unat b3 = 128 + e" "e < 64"
    "a = 0 \<longrightarrow> 16 \<le> b" "a = 4 \<longrightarrow> b < 16"
  shows "decodeRune (p0 # b1 # b2 # b3 # rest) = (runeOf (a * 262144 + b * 4096 + c * 64 + e), 4)"
proof -
  obtain lo hi where f: "firstInfo (240 + a) = Some (4, lo, hi)"
    and lo: "lo = (if a = 0 then 0x90 else 0x80)" and hi: "hi = (if a = 4 then 0x8F else 0xBF)"
    using assms(2) by (simp add: firstInfo_def)
  have r: "\<not> (128 + b < lo \<or> hi < 128 + b)" using assms lo hi by auto
  have a8: "a < 8" using assms by simp
  show ?thesis using assms r by (simp add: f lead4_mod[OF a8] cont_mod isCont_def)
qed

lemma encodeRune_cases:
  fixes r :: rune
  obtains (one) "unat r \<le> 0x7F" "validRune r" "encodeRune r = [byteOf (unat r)]"
  | (two) "0x7F < unat r" "unat r \<le> 0x7FF" "validRune r"
      "encodeRune r = [byteOf (0xC0 + unat r div 64), byteOf (0x80 + unat r mod 64)]"
  | (bad) "\<not> validRune r" "encodeRune r = [0xEF, 0xBF, 0xBD]"
  | (three) "0x7FF < unat r" "unat r \<le> 0xFFFF" "validRune r"
      "encodeRune r = [byteOf (0xE0 + unat r div 4096), byteOf (0x80 + unat r div 64 mod 64),
         byteOf (0x80 + unat r mod 64)]"
  | (four) "0xFFFF < unat r" "unat r \<le> 0x10FFFF" "validRune r"
      "encodeRune r = [byteOf (0xF0 + unat r div 262144), byteOf (0x80 + unat r div 4096 mod 64),
         byteOf (0x80 + unat r div 64 mod 64), byteOf (0x80 + unat r mod 64)]"
proof -
  consider "unat r \<le> 0x7F" | "0x7F < unat r \<and> unat r \<le> 0x7FF"
    | "0x7FF < unat r \<and> \<not> validRune r"
    | "0x7FF < unat r \<and> validRune r \<and> unat r \<le> 0xFFFF"
    | "validRune r \<and> 0xFFFF < unat r"
    by linarith
  then show thesis
  proof cases
    case 1
    then show ?thesis using one by (auto simp: encodeRune_def validRune_def Let_def)
  next
    case 2
    then show ?thesis using two by (auto simp: encodeRune_def validRune_def Let_def)
  next
    case 3
    then show ?thesis using bad by (auto simp: encodeRune_def validRune_def Let_def)
  next
    case 4
    then show ?thesis using three by (auto simp: encodeRune_def validRune_def Let_def)
  next
    case 5
    then show ?thesis using four by (auto simp: encodeRune_def validRune_def Let_def)
  qed
qed

lemma decodeRune_encodeRune:
  "decodeRune (encodeRune r @ rest) = (sanitize r, length (encodeRune r))"
proof (cases r rule: encodeRune_cases)
  case one
  then show ?thesis by (simp add: sanitize_def unat_byte runeOf_unat)
next
  case two
  let ?i = "unat r"
  have d: "2 \<le> ?i div 64" "?i div 64 < 32" using two(1,2) by simp_all
  have "decodeRune (byteOf (192 + ?i div 64) # byteOf (128 + ?i mod 64) # rest)
        = (runeOf (?i div 64 * 64 + ?i mod 64), 2)"
    using d by (intro decodeRune_2) (simp_all add: unat_byte)
  then show ?thesis using two by (simp add: sanitize_def runeOf_unat)
next
  case bad
  have "decodeRune (0xEF # 0xBF # 0xBD # rest) = (runeOf (15 * 4096 + 63 * 64 + 61), 3)"
    by (intro decodeRune_3) simp_all
  then show ?thesis using bad by (simp add: sanitize_def RuneError_def runeOf_def)
next
  case three
  let ?i = "unat r"
  let ?a = "?i div 4096" and ?b = "?i div 64 mod 64" and ?c = "?i mod 64"
  have s: "?i = ?a * 4096 + ?b * 64 + ?c" by (rule base64_3)
  have b: "?b < 64" "?c < 64" by simp_all
  have a: "?a < 16" using three(2) by simp
  have a0: "?a = 0 \<longrightarrow> 32 \<le> ?b" using s b three(1) by linarith
  have a13: "?a = 13 \<longrightarrow> ?b < 32" using s b three(3) unfolding validRune_def by linarith
  have "decodeRune (byteOf (224 + ?a) # byteOf (128 + ?b) # byteOf (128 + ?c) # rest)
        = (runeOf (?a * 4096 + ?b * 64 + ?c), 3)"
    using a b a0 a13 by (intro decodeRune_3) (simp_all add: unat_byte)
  then show ?thesis using three s by (simp add: sanitize_def runeOf_unat)
next
  case four
  let ?i = "unat r"
  let ?a = "?i div 262144" and ?b = "?i div 4096 mod 64" and ?c = "?i div 64 mod 64"
    and ?e = "?i mod 64"
  have s: "?i = ?a * 262144 + ?b * 4096 + ?c * 64 + ?e" by (rule base64_4)
  have b: "?b < 64" "?c < 64" "?e < 64" by simp_all
  have a: "?a \<le> 4" using four(2) by simp
  have a0: "?a = 0 \<longrightarrow> 16 \<le> ?b" using s b four(1) by linarith
  have a4: "?a = 4 \<longrightarrow> ?b < 16" using s b four(2) by linarith
  have "decodeRune (byteOf (240 + ?a) # byteOf (128 + ?b) # byteOf (128 + ?c)
          # byteOf (128 + ?e) # rest)
        = (runeOf (?a * 262144 + ?b * 4096 + ?c * 64 + ?e), 4)"
    using a b a0 a4 by (intro decodeRune_4) (simp_all add: unat_byte)
  then show ?thesis using four s by (simp add: sanitize_def runeOf_unat)
qed

lemma encodeRune_length: "1 \<le> length (encodeRune r) \<and> length (encodeRune r) \<le> 4"
  by (cases r rule: encodeRune_cases) simp_all

lemma encodeRune_neq_Nil: "encodeRune r \<noteq> []"
  using encodeRune_length[of r] by auto

lemma decodeRunes_encodeRune_append:
  "decodeRunes (encodeRune r @ bs) = sanitize r # decodeRunes bs"
proof -
  obtain x xs where e: "encodeRune r = x # xs"
    using encodeRune_neq_Nil[of r] by (cases "encodeRune r") auto
  have "decodeRune ((x # xs) @ bs) = (sanitize r, length (x # xs))"
    using decodeRune_encodeRune[of r bs] e by simp
  then have "decodeRunes (x # (xs @ bs)) = sanitize r # decodeRunes (drop (length (x # xs)) (x # xs @ bs))"
    by simp
  then show ?thesis using e by simp
qed

lemma decodeRunes_encodeRunes: "decodeRunes (encodeRunes rs) = map sanitize rs"
  by (induction rs) (simp_all add: encodeRunes_def decodeRunes_encodeRune_append)

lemma sanitize_valid: "validRune (sanitize r)"
  by (simp add: sanitize_def validRune_def RuneError_def)

lemma sanitize_id: "validRune r \<Longrightarrow> sanitize r = r"
  by (simp add: sanitize_def)

lemma encodeRune_sanitize: "encodeRune (sanitize r) = encodeRune r"
proof (cases "validRune r")
  case True
  then show ?thesis by (simp add: sanitize_def)
next
  case False
  then have "encodeRune r = [0xEF, 0xBF, 0xBD]"
    by (cases r rule: encodeRune_cases) simp_all
  moreover have "encodeRune RuneError = [0xEF, 0xBF, 0xBD]"
    by (simp add: encodeRune_def RuneError_def byteOf_def)
  ultimately show ?thesis using False by (simp add: sanitize_def)
qed

lemma encodeRunes_append: "encodeRunes (xs @ ys) = encodeRunes xs @ encodeRunes ys"
  by (simp add: encodeRunes_def)

lemma validRune_runeOf:
  "n \<le> 0x10FFFF \<Longrightarrow> \<not> (0xD800 \<le> n \<and> n \<le> 0xDFFF) \<Longrightarrow> validRune (runeOf n)"
proof -
  assume a: "n \<le> 0x10FFFF" "\<not> (0xD800 \<le> n \<and> n \<le> 0xDFFF)"
  then have "n < 2 ^ 32" by simp
  then have "unat (runeOf n) = n" by (rule unat_runeOf)
  then show ?thesis using a by (simp add: validRune_def)
qed

lemma RuneError_valid: "validRune RuneError"
  by (simp add: validRune_def RuneError_def)

lemma firstInfo_3:
  assumes "firstInfo p = Some (3, lo, hi)"
  obtains a where "p = 224 + a" "a < 16" "lo = (if a = 0 then 0xA0 else 0x80)"
    "hi = (if a = 13 then 0x9F else 0xBF)"
proof -
  have "224 \<le> p \<and> p \<le> 239" using assms by (simp add: firstInfo_def split: if_splits)
  then have a: "p = 224 + (p - 224)" "p - 224 < 16" by linarith+
  show thesis using assms a that[of "p - 224"] by (auto simp: firstInfo_def split: if_splits)
qed


lemma firstInfo_4:
  assumes "firstInfo p = Some (4, lo, hi)"
  obtains a where "p = 240 + a" "a \<le> 4" "lo = (if a = 0 then 0x90 else 0x80)"
    "hi = (if a = 4 then 0x8F else 0xBF)"
proof -
  have "240 \<le> p \<and> p \<le> 244" using assms by (simp add: firstInfo_def split: if_splits)
  then have a: "p = 240 + (p - 240)" "p - 240 \<le> 4" by linarith+
  show thesis using assms a that[of "p - 240"] by (auto simp: firstInfo_def split: if_splits)
qed

lemma firstInfo_2:
  assumes "firstInfo p = Some (2, lo, hi)"
  obtains a where "p = 192 + a" "2 \<le> a" "a < 32" "lo = 0x80" "hi = 0xBF"
proof -
  have "194 \<le> p \<and> p \<le> 223" using assms by (simp add: firstInfo_def split: if_splits)
  then have a: "p = 192 + (p - 192)" "2 \<le> p - 192" "p - 192 < 32" by linarith+
  show thesis using assms a that[of "p - 192"] by (auto simp: firstInfo_def split: if_splits)
qed

lemma firstInfo_size: "firstInfo p = Some (sz, lo, hi) \<Longrightarrow> sz = 2 \<or> sz = 3 \<or> sz = 4"
  by (auto simp: firstInfo_def split: if_splits)

lemma cont_split:
  assumes "128 \<le> b" "b \<le> (191::nat)"
  obtains m where "b = 128 + m" "m < 64"
proof -
  have "b = 128 + (b - 128)" "b - 128 < 64" using assms by linarith+
  then show thesis using that by blast
qed

lemma decodeRune_cases:
  obtains (err) n where "decodeRune bs = (RuneError, n)"
  | (one) p0 rest where "bs = p0 # rest" "unat p0 < 128"
      "decodeRune bs = (runeOf (unat p0), 1)"
  | (two) p0 b1 rest d m where "bs = p0 # b1 # rest" "unat p0 = 192 + d" "2 \<le> d" "d < 32"
      "unat b1 = 128 + m" "m < 64" "decodeRune bs = (runeOf (d * 64 + m), 2)"
  | (three) p0 b1 b2 rest a b c where "bs = p0 # b1 # b2 # rest" "unat p0 = 224 + a" "a < 16"
      "unat b1 = 128 + b" "b < 64" "unat b2 = 128 + c" "c < 64"
      "a = 0 \<longrightarrow> 32 \<le> b" "a = 13 \<longrightarrow> b < 32"
      "decodeRune bs = (runeOf (a * 4096 + b * 64 + c), 3)"
  | (four) p0 b1 b2 b3 rest a b c e where "bs = p0 # b1 # b2 # b3 # rest" "unat p0 = 240 + a"
      "a \<le> 4" "unat b1 = 128 + b" "b < 64" "unat b2 = 128 + c" "c < 64"
      "unat b3 = 128 + e" "e < 64" "a = 0 \<longrightarrow> 16 \<le> b" "a = 4 \<longrightarrow> b < 16"
      "decodeRune bs = (runeOf (a * 262144 + b * 4096 + c * 64 + e), 4)"
proof (cases bs)
  case Nil
  then show ?thesis using err by simp
next
  case (Cons p0 ps)
  show ?thesis
  proof (cases "unat p0 < 0x80")
    case True
    then show ?thesis using Cons one by simp
  next
    case hi: False
    show ?thesis
    proof (cases "firstInfo (unat p0)")
      case None
      then show ?thesis using Cons hi err by simp
    next
      case (Some t)
      obtain sz lo hi' where t: "t = (sz, lo, hi')" by (cases t)
      note fi = Some[unfolded t]
      show ?thesis
      proof (cases "length (p0 # ps) < sz \<or> unat (ps ! 0) < lo \<or> hi' < unat (ps ! 0)")
        case True
        then have "decodeRune bs = (RuneError, 1)"
          using Cons hi fi by (auto simp: Let_def)
        then show ?thesis by (rule err)
      next
        case ok1: False
        have sz: "sz = 2 \<or> sz = 3 \<or> sz = 4" using fi by (rule firstInfo_size)
        then obtain b1 ps1 where ps: "ps = b1 # ps1" using ok1 by (cases ps) auto
        have b1r: "lo \<le> unat b1" "unat b1 \<le> hi'" using ok1 ps by simp_all
        have lohi: "128 \<le> lo" "hi' \<le> 191" using fi by (auto simp: firstInfo_def split: if_splits)
        obtain b where b: "unat b1 = 128 + b" "b < 64"
          using cont_split[of "unat b1"] b1r lohi by (metis le_trans)
        from sz show ?thesis
        proof (elim disjE)
          assume s2: "sz = 2"
          obtain d where d: "unat p0 = 192 + d" "2 \<le> d" "d < 32"
            using firstInfo_2[OF fi[unfolded s2]] by metis
          have "decodeRune bs = (runeOf (d * 64 + b), 2)"
            unfolding Cons ps using d b by (rule decodeRune_2)
          then show ?thesis using two[of p0 b1 ps1 d b] Cons ps d b by simp
        next
          assume s3: "sz = 3"
          obtain a where a: "unat p0 = 224 + a" "a < 16" "lo = (if a = 0 then 0xA0 else 0x80)"
            "hi' = (if a = 13 then 0x9F else 0xBF)"
            using firstInfo_3[OF fi[unfolded s3]] by metis
          have c1: "a = 0 \<longrightarrow> 32 \<le> b" "a = 13 \<longrightarrow> b < 32"
            using a b b1r by (auto split: if_splits)
          show ?thesis
          proof (cases "isCont (unat (ps ! 1))")
            case False
            then have "decodeRune bs = (RuneError, 1)"
              using Cons hi fi ok1 s3 by (auto simp: Let_def)
            then show ?thesis by (rule err)
          next
            case True
            have "3 \<le> length (p0 # ps)" using ok1 s3 by simp
            then obtain b2 ps2 where ps1: "ps1 = b2 # ps2" using ps by (cases ps1) auto
            obtain c where c: "unat b2 = 128 + c" "c < 64"
              using cont_split[of "unat b2"] True ps ps1 by (auto simp: isCont_def)
            have "decodeRune bs = (runeOf (a * 4096 + b * 64 + c), 3)"
              unfolding Cons ps ps1 using a(1,2) b c c1 by (rule decodeRune_3)
            then show ?thesis using three[of p0 b1 b2 ps2 a b c] Cons ps ps1 a b c c1 by simp
          qed
        next
          assume s4: "sz = 4"
          obtain a where a: "unat p0 = 240 + a" "a \<le> 4" "lo = (if a = 0 then 0x90 else 0x80)"
            "hi' = (if a = 4 then 0x8F else 0xBF)"
            using firstInfo_4[OF fi[unfolded s4]] by metis
          have c1: "a = 0 \<longrightarrow> 16 \<le> b" "a = 4 \<longrightarrow> b < 16"
            using a b b1r by (auto split: if_splits)
          show ?thesis
          proof (cases "isCont (unat (ps ! 1)) \<and> isCont (unat (ps ! 2))")
            case False
            then have "decodeRune bs = (RuneError, 1)"
              using Cons hi fi ok1 s4 by (auto simp: Let_def)
            then show ?thesis by (rule err)
          next
            case True
            have "4 \<le> length (p0 # ps)" using ok1 s4 by simp
            then obtain b2 b3 ps3 where ps1: "ps1 = b2 # b3 # ps3"
              using ps by (cases ps1; cases "tl ps1") auto
            obtain c where c: "unat b2 = 128 + c" "c < 64"
              using cont_split[of "unat b2"] True ps ps1 by (auto simp: isCont_def)
            obtain e where e: "unat b3 = 128 + e" "e < 64"
              using cont_split[of "unat b3"] True ps ps1 by (auto simp: isCont_def)
            have "decodeRune bs = (runeOf (a * 262144 + b * 4096 + c * 64 + e), 4)"
              unfolding Cons ps ps1 using a(1,2) b c e c1 by (rule decodeRune_4)
            then show ?thesis
              using four[of p0 b1 b2 b3 ps3 a b c e] Cons ps ps1 a b c e c1 by simp
          qed
        qed
      qed
    qed
  qed
qed

lemma decodeRune_valid: "validRune (fst (decodeRune bs))"
proof (cases bs rule: decodeRune_cases)
  case (err n)
  then show ?thesis by (simp add: RuneError_valid)
next
  case (one p0 rest)
  then show ?thesis by (simp add: validRune_runeOf)
next
  case (two p0 b1 rest d m)
  have "validRune (runeOf (d * 64 + m))" using two(3-6) by (intro validRune_runeOf) linarith+
  then show ?thesis using two by simp
next
  case (three p0 b1 b2 rest a b c)
  have "a \<le> 12 \<or> a = 13 \<or> 14 \<le> a" by linarith
  then have "\<not> (0xD800 \<le> a * 4096 + b * 64 + c \<and> a * 4096 + b * 64 + c \<le> 0xDFFF)"
    using three(3,5,7,9) by (elim disjE) simp_all
  moreover have "a * 4096 + b * 64 + c \<le> 0x10FFFF" using three(3,5,7) by linarith
  ultimately have "validRune (runeOf (a * 4096 + b * 64 + c))" by (intro validRune_runeOf)
  then show ?thesis using three by simp
next
  case (four p0 b1 b2 b3 rest a b c e)
  have "a = 0 \<or> 1 \<le> a" by linarith
  then have lo: "0xDFFF < a * 262144 + b * 4096 + c * 64 + e"
    using four(10) by (elim disjE) simp_all
  have "a \<le> 3 \<or> a = 4" using four(3) by linarith
  then have "a * 262144 + b * 4096 + c * 64 + e \<le> 0x10FFFF"
    using four(5,7,9,11) by (elim disjE) simp_all
  then have "validRune (runeOf (a * 262144 + b * 4096 + c * 64 + e))"
    using lo by (intro validRune_runeOf) simp_all
  then show ?thesis using four by simp
qed

lemma decodeRunes_valid: "r \<in> set (decodeRunes bs) \<Longrightarrow> validRune r"
proof (induction bs arbitrary: r rule: decodeRunes.induct)
  case 1
  then show ?case by simp
next
  case (2 b bs)
  obtain r0 n where d: "decodeRune (b # bs) = (r0, n)" by (cases "decodeRune (b # bs)")
  have v: "validRune r0" using decodeRune_valid[of "b # bs"] d by simp
  from "2.prems" d have "r = r0 \<or> r \<in> set (decodeRunes (drop n (b # bs)))" by simp
  then show ?case using v "2.IH"[OF d[symmetric]] by blast
qed

section \<open>UTF-8: the last rune and the length of an encoding\<close>

lemma scanBack_hit:
  "lim \<le> start \<Longrightarrow> RuneStart (p ! nat start) \<Longrightarrow> scanBack p lim start = start"
  by (subst scanBack.simps) simp

lemma scanBack_miss:
  "lim \<le> start \<Longrightarrow> \<not> RuneStart (p ! nat start) \<Longrightarrow>
     scanBack p lim start = scanBack p lim (start - 1)"
  by (subst scanBack.simps) simp

lemma RuneStart_lead: "192 \<le> unat b \<Longrightarrow> RuneStart b"
proof -
  assume a: "192 \<le> unat b"
  have "unat b < 256" using unsigned_less[of b] by simp
  then have "unat b div 64 = 3" using a by simp
  then show ?thesis by (simp add: RuneStart_def)
qed

lemma RuneStart_cont: "unat b = 128 + m \<Longrightarrow> m < 64 \<Longrightarrow> \<not> RuneStart b"
  by (simp add: RuneStart_def)

text \<open>The bytes of an encoding: one byte below \<open>0x80\<close>, or a leading byte from \<open>0xC0\<close>
  on followed by one to three continuation bytes.\<close>

lemma encodeRune_shape:
  obtains (ascii) c0 where "encodeRune r = [c0]" "unat c0 < 128"
  | (multi) c0 cs where "encodeRune r = c0 # cs" "192 \<le> unat c0" "cs \<noteq> []" "length cs \<le> 3"
      "\<forall>c \<in> set cs. \<exists>m < 64. unat c = 128 + m"
proof (cases r rule: encodeRune_cases)
  case one
  then show ?thesis using ascii[of "byteOf (unat r)"] by (simp add: unat_byte)
next
  case two
  have d: "unat r div 64 < 32" using two(2) by simp
  show ?thesis
    using multi[of "byteOf (192 + unat r div 64)" "[byteOf (128 + unat r mod 64)]"] two d
    by (simp add: unat_byte)
next
  case bad
  have "\<exists>m < 64. unat (0xBF :: byte) = 128 + m" by (intro exI[of _ 63]) simp
  moreover have "\<exists>m < 64. unat (0xBD :: byte) = 128 + m" by (intro exI[of _ 61]) simp
  ultimately have "\<forall>c \<in> set [0xBF, 0xBD :: byte]. \<exists>m < 64. unat c = 128 + m"
    by simp
  then show ?thesis using multi[of "0xEF" "[0xBF, 0xBD]"] bad by simp
next
  case three
  have d: "unat r div 4096 < 16" using three(2) by simp
  show ?thesis
    using multi[of "byteOf (224 + unat r div 4096)"
        "[byteOf (128 + unat r div 64 mod 64), byteOf (128 + unat r mod 64)]"] three d
    by (simp add: unat_byte)
next
  case four
  have d: "unat r div 262144 \<le> 4" using four(2) by simp
  show ?thesis
    using multi[of "byteOf (240 + unat r div 262144)"
        "[byteOf (128 + unat r div 4096 mod 64), byteOf (128 + unat r div 64 mod 64),
          byteOf (128 + unat r mod 64)]"] four d
    by (simp add: unat_byte)
qed

lemma scanBack_conts:
  assumes "192 \<le> unat c0" "\<forall>c \<in> set cs. \<exists>m < 64. unat c = 128 + m"
    and "lim \<le> int (length bs)" "k \<le> length cs"
  shows "scanBack (bs @ c0 # cs) lim (int (length bs) + int k) = int (length bs)"
  using assms(4)
proof (induction k)
  case 0
  have "RuneStart ((bs @ c0 # cs) ! length bs)" using assms(1) by (simp add: RuneStart_lead)
  then show ?case using assms(3) by (simp add: scanBack_hit)
next
  case (Suc k)
  have k: "k < length cs" using Suc.prems by simp
  then have "cs ! k \<in> set cs" by simp
  then obtain m where "m < 64" "unat (cs ! k) = 128 + m" using assms(2) by blast
  then have "\<not> RuneStart (cs ! k)" by (simp add: RuneStart_cont)
  moreover have "(bs @ c0 # cs) ! nat (int (length bs) + int (Suc k)) = cs ! k"
    by (simp add: nth_append nat_add_distrib)
  ultimately have "scanBack (bs @ c0 # cs) lim (int (length bs) + int (Suc k))
      = scanBack (bs @ c0 # cs) lim (int (length bs) + int (Suc k) - 1)"
    using assms(3) by (intro scanBack_miss) simp_all
  then show ?case using Suc.IH k by simp
qed

lemma decodeLastRune_encodeRune:
  "decodeLastRune (bs @ encodeRune r) = (sanitize r, length (encodeRune r))"
proof (cases r rule: encodeRune_shape)
  case (ascii c0)
  have d: "decodeRune (encodeRune r @ []) = (sanitize r, length (encodeRune r))"
    by (rule decodeRune_encodeRune)
  then have "runeOf (unat c0) = sanitize r" using ascii by simp
  then show ?thesis using ascii by (simp add: decodeLastRune_def Let_def)
next
  case (multi c0 cs)
  let ?p = "bs @ c0 # cs"
  let ?end = "int (length ?p)"
  have d: "decodeRune (c0 # cs) = (sanitize r, Suc (length cs))"
    using decodeRune_encodeRune[of r "[]"] multi(1) by simp
  obtain m where m: "m < 64" "unat (last cs) = 128 + m"
    using multi(3,5) last_in_set by blast
  have n: "nat (?end - 1) = length bs + length cs" by simp
  have "?p ! (length bs + length cs) = (c0 # cs) ! length cs"
    by (simp add: nth_append)
  also have "\<dots> = cs ! (length cs - 1)"
    using multi(3) by (cases cs) simp_all
  also have "\<dots> = last cs"
    using multi(3) by (simp add: last_conv_nth)
  finally have l: "?p ! nat (?end - 1) = last cs" unfolding n .
  have hi: "\<not> unat (?p ! nat (?end - 1)) < 128" using l m by simp
  let ?lim = "if ?end - 4 < 0 then 0 else ?end - 4"
  have lim: "?lim \<le> int (length bs)" using multi(4) by simp
  have e: "?end - 1 - 1 = int (length bs) + int (length cs - 1)"
    using multi(3) by (cases cs) simp_all
  have sb: "scanBack ?p ?lim (?end - 1 - 1) = int (length bs)"
    unfolding e using multi(2,5) lim by (intro scanBack_conts) simp_all
  have "decodeLastRune ?p = (sanitize r, Suc (length cs))"
    unfolding decodeLastRune_def Let_def sb using hi d by simp
  then show ?thesis using multi(1) by simp
qed

section \<open>Machine integers of the splice request\<close>

lemma sint_small:
  fixes x :: "64 word"
  assumes "unat x < 2 ^ 63"
  shows "sint x = int (unat x)"
proof -
  have "int (unat x) < int (2 ^ 63)" using assms by (simp only: of_nat_less_iff)
  then have "uint x < 2 ^ 63" by simp
  moreover have "- (2 ^ 63) \<le> uint x"
    using order_trans[of "- (2 ^ 63)" 0 "uint x"] by simp
  ultimately have "signed_take_bit 63 (uint x) = uint x"
    by (intro signed_take_bit_int_eq_self)
  then show ?thesis by (simp add: sint_uint)
qed

lemma sint_rune:
  fixes r :: rune
  assumes "unat r < 2 ^ 31"
  shows "sint r = int (unat r)"
proof -
  have "int (unat r) < int (2 ^ 31)" using assms by (simp only: of_nat_less_iff)
  then have "uint r < 2 ^ 31" by simp
  moreover have "- (2 ^ 31) \<le> uint r"
    using order_trans[of "- (2 ^ 31)" 0 "uint r"] by simp
  ultimately have "signed_take_bit 31 (uint r) = uint r"
    by (intro signed_take_bit_int_eq_self)
  then show ?thesis by (simp add: sint_uint)
qed

lemma unat_add_small:
  fixes x y :: "64 word"
  assumes "unat x + unat y < 2 ^ 64"
  shows "unat (x + y) = unat x + unat y"
  using assms unat_add_lem[of x y] by simp

lemma RuneLen_encodeRune:
  assumes "validRune r"
  shows "RuneLen r = int (length (encodeRune r))"
proof -
  have "unat r < 2 ^ 31" using assms by (simp add: validRune_def)
  then have s: "sint r = int (unat r)" by (rule sint_rune)
  show ?thesis
    using assms unfolding RuneLen_def s
    by (cases r rule: encodeRune_cases) (auto simp del: of_nat_unat simp: validRune_def)
qed

lemma sum_RuneLen:
  assumes "\<forall>r \<in> set rs. validRune r"
  shows "sum_list (map RuneLen rs) = int (length (encodeRunes rs))"
  using assms by (induction rs) (simp_all add: encodeRunes_def RuneLen_encodeRune)

section \<open>The open post under the three text operations\<close>

lemma updateBody_cl: "cl (snd (updateBody cfg f msg n w)) = cl w"
  by (simp add: updateBody_def Let_def incrementSpamScore_def split: prod.splits)

lemma updateBody_fst:
  "fst (updateBody cfg f msg n w) = (if f OpSetOpenBody then Some (ErrStore OpSetOpenBody) else None)"
  by (simp add: updateBody_def Let_def db_SetOpenBody_def incrementSpamScore_def
      split: prod.splits)

lemma updateBody_sent:
  "sent (fd (snd (updateBody cfg f msg n w))) = sent (fd w) @ [msg]"
  by (simp add: updateBody_def Let_def incrementSpamScore_def feed_SetOpenBody_def
      split: prod.splits)

lemma postOK_I:
  assumes "body p = encodeRunes rs" "\<forall>r \<in> set rs. validRune r" "0 \<notin> set rs"
    "len p = int (length rs)"
  shows "postOK p" and "decodeRunes (body p) = rs"
proof -
  have "map sanitize rs = rs" using assms(2) by (simp add: map_idI sanitize_id)
  then show d: "decodeRunes (body p) = rs"
    using assms(1) decodeRunes_encodeRunes[of rs] by simp
  show "postOK p" using assms d by (simp add: postOK_def validUTF8_def runeLen_def)
qed

lemma postOK_D:
  assumes "postOK p"
  shows "body p = encodeRunes (decodeRunes (body p))"
    and "\<forall>r \<in> set (decodeRunes (body p)). validRune r"
    and "0 \<notin> set (decodeRunes (body p))"
    and "len p = int (length (decodeRunes (body p)))"
  using assms by (simp_all add: postOK_def validUTF8_def runeLen_def decodeRunes_valid)

lemma sanitize_nonzero: "r \<noteq> 0 \<Longrightarrow> sanitize r \<noteq> 0"
  by (simp add: sanitize_def RuneError_def)

lemma encodeRunes_snoc: "encodeRunes (rs @ [r]) = encodeRunes rs @ encodeRune r"
  by (simp add: encodeRunes_def)

lemma postOK_append:
  assumes "postOK p" "char \<noteq> 0" "body p' = body p @ encodeRune char" "len p' = len p + 1"
  shows "postOK p'"
proof -
  let ?old = "decodeRunes (body p)"
  have "body p' = encodeRunes (?old @ [sanitize char])"
    using postOK_D(1)[OF assms(1)] assms(3) by (simp add: encodeRunes_snoc encodeRune_sanitize)
  moreover have "\<forall>r \<in> set (?old @ [sanitize char]). validRune r"
    using postOK_D(2)[OF assms(1)] by (simp add: sanitize_valid)
  moreover have "0 \<notin> set (?old @ [sanitize char])"
    using postOK_D(3)[OF assms(1)] sanitize_nonzero[OF assms(2)] by auto
  moreover have "len p' = int (length (?old @ [sanitize char]))"
    using postOK_D(4)[OF assms(1)] assms(4) by simp
  ultimately show ?thesis by (rule postOK_I(1))
qed

lemma postOK_backspace:
  assumes "postOK p" "len p \<noteq> 0" "decodeLastRune (body p) = (r, n)"
    "body p' = take (length (body p) - n) (body p)" "len p' = len p - 1"
  shows "postOK p'" and "r = last (decodeRunes (body p))"
    and "body p' = encodeRunes (butlast (decodeRunes (body p)))"
proof -
  let ?old = "decodeRunes (body p)"
  have ne: "?old \<noteq> []" using postOK_D(4)[OF assms(1)] assms(2) by auto
  then have sp: "?old = butlast ?old @ [last ?old]" by simp
  have b: "body p = encodeRunes (butlast ?old) @ encodeRune (last ?old)"
    using postOK_D(1)[OF assms(1)] sp encodeRunes_snoc by metis
  have v: "validRune (last ?old)" using postOK_D(2)[OF assms(1)] ne by simp
  have "decodeLastRune (body p) = (sanitize (last ?old), length (encodeRune (last ?old)))"
    using decodeLastRune_encodeRune[of "encodeRunes (butlast ?old)" "last ?old"] b by simp
  then have rn: "r = last ?old" "n = length (encodeRune (last ?old))"
    using assms(3) v by (simp_all add: sanitize_id)
  show "r = last ?old" by (rule rn(1))
  have "take (length (A @ E) - length E) (A @ E) = A" for A E :: "byte list" by simp
  then have "take (length (body p) - n) (body p) = encodeRunes (butlast ?old)"
    using b rn(2) by metis
  then show b': "body p' = encodeRunes (butlast ?old)" using assms(4) by simp
  have "\<forall>r \<in> set (butlast ?old). validRune r"
    using postOK_D(2)[OF assms(1)] in_set_butlastD by metis
  moreover have "0 \<notin> set (butlast ?old)"
    using postOK_D(3)[OF assms(1)] in_set_butlastD by metis
  moreover have "len p' = int (length (butlast ?old))"
  proof -
    obtain k where "length ?old = Suc k" using ne by (cases ?old) auto
    then show ?thesis using postOK_D(4)[OF assms(1)] assms(5) by simp
  qed
  ultimately show "postOK p'" using b' by (intro postOK_I(1))
qed

lemma appendRune_success:
  assumes "fst (appendRune cfg f (Inr r) w) = None"
  shows "id_post (post (cl w)) \<noteq> 0" and "r \<noteq> 0"
    and "cl (snd (appendRune cfg f (Inr r) w)) =
      (cl w)\<lparr>post := (post (cl w))\<lparr>
         lines := (if r = 0x0A then lines (post (cl w)) + 1 else lines (post (cl w))),
         body := body (post (cl w)) @ encodeRune r,
         len := len (post (cl w)) + 1\<rparr>\<rparr>"
    and "len (post (cl w)) + 1 \<le> int (MaxLenBody cfg)"
    and "r = 0x0A \<longrightarrow> lines (post (cl w)) + 1 \<le> int (MaxLinesBody cfg)"
proof -
  show id: "id_post (post (cl w)) \<noteq> 0"
    using assms by (auto simp: appendRune_def hasPost_def Let_def split: if_splits)
  then have h: "hasPost (cl w) = (True, None)" by (simp add: hasPost_def)
  show r: "r \<noteq> 0"
    using assms by (auto simp: appendRune_def h Let_def split: if_splits)
  show "cl (snd (appendRune cfg f (Inr r) w)) =
      (cl w)\<lparr>post := (post (cl w))\<lparr>
         lines := (if r = 0x0A then lines (post (cl w)) + 1 else lines (post (cl w))),
         body := body (post (cl w)) @ encodeRune r,
         len := len (post (cl w)) + 1\<rparr>\<rparr>"
    using assms r
    by (auto simp: appendRune_def h Let_def EncodeMessage_def updateBody_cl setPost_def
        split: if_splits option.splits)
  show "len (post (cl w)) + 1 \<le> int (MaxLenBody cfg)"
    using assms by (auto simp: appendRune_def h Let_def split: if_splits)
  show "r = 0x0A \<longrightarrow> lines (post (cl w)) + 1 \<le> int (MaxLinesBody cfg)"
    using assms r by (auto simp: appendRune_def h Let_def split: if_splits)
qed

lemma backspace_success:
  assumes "fst (backspace cfg f w) = None"
  shows "len (post (cl w)) \<noteq> 0"
    and "cl (snd (backspace cfg f w)) =
      (cl w)\<lparr>post := (post (cl w))\<lparr>
         body := take (length (body (post (cl w))) - snd (decodeLastRune (body (post (cl w)))))
                   (body (post (cl w))),
         lines := (if fst (decodeLastRune (body (post (cl w)))) = 0x0A
                   then lines (post (cl w)) - 1 else lines (post (cl w))),
         len := len (post (cl w)) - 1\<rparr>\<rparr>"
proof -
  have id: "id_post (post (cl w)) \<noteq> 0"
    using assms by (auto simp: backspace_def hasPost_def Let_def split: if_splits)
  then have h: "hasPost (cl w) = (True, None)" by (simp add: hasPost_def)
  show l: "len (post (cl w)) \<noteq> 0"
    using assms by (auto simp: backspace_def h Let_def split: if_splits)
  show "cl (snd (backspace cfg f w)) =
      (cl w)\<lparr>post := (post (cl w))\<lparr>
         body := take (length (body (post (cl w))) - snd (decodeLastRune (body (post (cl w)))))
                   (body (post (cl w))),
         lines := (if fst (decodeLastRune (body (post (cl w)))) = 0x0A
                   then lines (post (cl w)) - 1 else lines (post (cl w))),
         len := len (post (cl w)) - 1\<rparr>\<rparr>"
    using l
    by (simp add: backspace_def h Let_def EncodeMessage_def updateBody_cl setPost_def
        split: prod.splits)
qed

section \<open>The splice on a post in order\<close>

lemma spliceValidate_NoneD:
  assumes "spliceValidate cfg p req = None"
  shows "unat (Start req) \<le> MaxLenBody cfg" "unat (Len req) \<le> MaxLenBody cfg"
    "sint (Start req + Len req) \<le> len p"
    "\<not> (Len req = 0 \<and> Text req = [])" "length (Text req) \<le> MaxLenBody cfg"
    "0 \<notin> set (Text req)"
  using assms by (auto simp: spliceValidate_def split: if_splits)

lemma encodeRunes_take_prefix:
  "take (length (encodeRunes (take s old))) (encodeRunes old) = encodeRunes (take s old)"
proof -
  have "encodeRunes old = encodeRunes (take s old) @ encodeRunes (drop s old)"
    by (metis append_take_drop_id encodeRunes_append)
  then show ?thesis by (metis append_eq_conv_conj)
qed

lemma length_encodeRunes_take_le:
  "length (encodeRunes (take s old)) \<le> length (encodeRunes old)"
proof -
  have "encodeRunes old = encodeRunes (take s old) @ encodeRunes (drop s old)"
    by (metis append_take_drop_id encodeRunes_append)
  then show ?thesis by (metis le_add1 length_append)
qed

text \<open>What \<open>spliceApply\<close> computes when the post is in order and the request has passed
  the validation: the new body is the encoding of \<open>spec_splice\<close>.\<close>

lemma spliceApply_eval:
  assumes ok: "postOK (post (cl w))"
    and cap: "MaxLenBody cfg < 2 ^ 62"
    and val: "spliceValidate cfg (post (cl w)) req = None"
    and tv: "\<forall>r \<in> set (Text req). validRune r"
    and oldD: "old = decodeRunes (body (post (cl w)))"
    and sD: "s = unat (Start req)" and lD: "l = unat (Len req)"
    and overD: "over = (MaxLenBody cfg + l < length old + length (Text req))"
    and txtD: "txt = (if over then encodeRunes (take (MaxLenBody cfg - s)
                        (Text req @ drop (s + l) old))
                     else encodeRunes (Text req))"
    and msgD: "msg = MessageSplice (id_post (post (cl w))) (Start req)
                     (if over then of_nat (length old - s) else Len req) txt"
    and newD: "new = spec_splice (MaxLenBody cfg) old s l (Text req)"
    and p2D: "p2 = countLines ((post (cl w))\<lparr>len := int (length new), body := encodeRunes new\<rparr>)"
  shows "spliceApply cfg f req w =
     (if lines p2 > int (MaxLinesBody cfg) then (Some ErrTooManyLines, setPost p2 w)
      else updateBody cfg f msg (int (length txt) + 1) (setPost p2 w))"
    and "s + l \<le> length old"
proof -
  let ?p = "post (cl w)"
  let ?M = "MaxLenBody cfg"
  let ?t = "Text req"
  note v = spliceValidate_NoneD[OF val]
  have n: "len ?p = int (length old)" using postOK_D(4)[OF ok] oldD by simp
  have b: "body ?p = encodeRunes old" using postOK_D(1)[OF ok] oldD by simp
  have ov: "\<forall>r \<in> set old. validRune r" using postOK_D(2)[OF ok] oldD by simp
  have M63: "?M + ?M < 2 ^ 63" using cap by simp
  have sl63: "s + l < 2 ^ 63" using v(1,2) M63 sD lD by linarith
  have us: "unat (Start req + Len req) = s + l"
    unfolding sD lD using sl63 sD lD by (intro unat_add_small) simp
  have ss: "sint (Start req + Len req) = int (s + l)"
    using sl63 us sint_small[of "Start req + Len req"] by simp
  have s1: "sint (Start req) = int s"
    unfolding sD using sl63 sD by (intro sint_small) linarith
  have l1: "sint (Len req) = int l"
    unfolding lD using sl63 lD by (intro sint_small) linarith
  show sln: "s + l \<le> length old" using v(3) ss n by simp
  have sM: "s \<le> ?M" using v(1) sD by simp
  let ?end0 = "?t @ drop (s + l) old"
  let ?len1 = "int (length old) + (- int l + int (length ?t))"
  let ?exc = "?len1 - int ?M"
  have exc: "(0 < ?exc) = over" unfolding overD by linarith
  have le0: "int (length ?end0) - ?exc = int (?M - s)" using sln sM by simp
  let ?end1 = "if over then take (?M - s) ?end0 else ?end0"
  have bsp: "sum_list (map RuneLen (take s old)) = int (length (encodeRunes (take s old)))"
    using ov by (intro sum_RuneLen) (meson in_set_takeD)
  have tk: "take (length (encodeRunes (take s old))) (body ?p) = encodeRunes (take s old)"
    unfolding b by (rule encodeRunes_take_prefix)
  have ble: "length (encodeRunes (take s old)) \<le> length (body ?p)"
    unfolding b by (rule length_encodeRunes_take_le)
  have nw: "take s old @ ?end1 = new"
  proof (cases over)
    case True
    have "take ?M (take s old @ ?end0) = take s old @ take (?M - s) ?end0"
      using sln sM by simp
    then show ?thesis using True by (simp add: newD spec_splice_def)
  next
    case False
    then have "length (take s old @ ?end0) \<le> ?M" using sln unfolding overD by simp
    then have "take ?M (take s old @ ?end0) = take s old @ ?end0" by (rule take_all)
    then show ?thesis using False by (simp add: newD spec_splice_def)
  qed
  have ln: "(if over then int ?M else ?len1) = int (length new)"
  proof (cases over)
    case True
    then have "?M \<le> length (take s old @ ?end0)" using sln unfolding overD by simp
    then have "length (take ?M (take s old @ ?end0)) = ?M"
      by (metis length_take min.absorb2)
    then show ?thesis using True by (simp add: newD spec_splice_def)
  next
    case False
    then have "length (take s old @ ?end0) \<le> ?M" using sln unfolding overD by simp
    then have "take ?M (take s old @ ?end0) = take s old @ ?end0" by (rule take_all)
    then have "int (length new) = int (length (take s old @ ?end0))"
      by (simp add: newD spec_splice_def)
    then show ?thesis using False sln by simp
  qed
  have dl: "length (drop (nat (int s)) old) = length old - s" by simp
  have nd: "nat (int ?M - int s) = ?M - s" by simp
  have body2: "take (nat (int (length (encodeRunes (take s old))))) (body ?p)
        @ encodeRunes (if over then take (nat (int (?M - s))) ?end0 else ?end0)
      = encodeRunes new"
  proof -
    have "encodeRunes (take s old) @ encodeRunes ?end1 = encodeRunes new"
      unfolding nw[symmetric] by (simp only: encodeRunes_append)
    then show ?thesis using tk by (cases over) (simp_all del: take_append)
  qed
  show "spliceApply cfg f req w =
     (if lines p2 > int (MaxLinesBody cfg) then (Some ErrTooManyLines, setPost p2 w)
      else updateBody cfg f msg (int (length txt) + 1) (setPost p2 w))"
    unfolding spliceApply_def Let_def oldD[symmetric] sD[symmetric] lD[symmetric]
      us ss s1 l1 n exc le0 bsp body2 ln
    using sln sM ble
    by (cases over) (simp_all add: EncodeMessage_def msgD txtD p2D dl nd del: take_append)
qed

section \<open>The three operations keep the post in order\<close>

lemma postOK_cong: "body p' = body p \<Longrightarrow> len p' = len p \<Longrightarrow> postOK p' = postOK p"
  by (simp add: postOK_def)

lemma appendRune_postOK:
  assumes "postOK (post (cl w))"
  shows "postOK (post (cl (snd (appendRune cfg f data w))))"
proof (cases data)
  case (Inl e)
  then have "snd (appendRune cfg f data w) = w"
    by (simp add: appendRune_def Let_def split: prod.splits)
  then show ?thesis using assms by simp
next
  case (Inr c)
  let ?p = "post (cl w)"
  let ?p' = "post (cl (snd (appendRune cfg f data w)))"
  have "(body ?p' = body ?p \<and> len ?p' = len ?p)
      \<or> (c \<noteq> 0 \<and> body ?p' = body ?p @ encodeRune c \<and> len ?p' = len ?p + 1)"
    unfolding Inr
    by (auto simp: appendRune_def Let_def setPost_def updateBody_cl EncodeMessage_def
        split: prod.splits option.splits)
  then show ?thesis using assms postOK_cong postOK_append by blast
qed

lemma backspace_postOK:
  assumes "postOK (post (cl w))"
  shows "postOK (post (cl (snd (backspace cfg f w))))"
proof -
  let ?p = "post (cl w)"
  let ?p' = "post (cl (snd (backspace cfg f w)))"
  obtain r n where d: "decodeLastRune (body ?p) = (r, n)" by (cases "decodeLastRune (body ?p)")
  have "?p' = ?p
      \<or> (len ?p \<noteq> 0 \<and> body ?p' = take (length (body ?p) - n) (body ?p) \<and> len ?p' = len ?p - 1)"
    by (auto simp: backspace_def Let_def setPost_def updateBody_cl EncodeMessage_def d
        split: prod.splits)
  then show ?thesis using assms postOK_backspace(1)[OF assms _ d] by auto
qed

lemma spliceApply_post:
  assumes ok: "postOK (post (cl w))"
    and cap: "MaxLenBody cfg < 2 ^ 62"
    and val: "spliceValidate cfg (post (cl w)) req = None"
    and tv: "\<forall>r \<in> set (Text req). validRune r"
  shows "post (cl (snd (spliceApply cfg f req w))) =
     countLines ((post (cl w))\<lparr>
       len := int (length (spec_splice (MaxLenBody cfg) (decodeRunes (body (post (cl w))))
                (unat (Start req)) (unat (Len req)) (Text req))),
       body := encodeRunes (spec_splice (MaxLenBody cfg) (decodeRunes (body (post (cl w))))
                (unat (Start req)) (unat (Len req)) (Text req))\<rparr>)"
  by (simp add: spliceApply_eval(1)[OF ok cap val tv refl refl refl refl refl refl refl refl]
      updateBody_cl setPost_def)

lemma spliceApply_fst:
  assumes ok: "postOK (post (cl w))"
    and cap: "MaxLenBody cfg < 2 ^ 62"
    and val: "spliceValidate cfg (post (cl w)) req = None"
    and tv: "\<forall>r \<in> set (Text req). validRune r"
  shows "fst (spliceApply cfg f req w) =
     (if int (MaxLinesBody cfg) < int (countNewlines (encodeRunes
           (spec_splice (MaxLenBody cfg) (decodeRunes (body (post (cl w))))
              (unat (Start req)) (unat (Len req)) (Text req))))
      then Some ErrTooManyLines
      else if f OpSetOpenBody then Some (ErrStore OpSetOpenBody) else None)"
  by (simp add: spliceApply_eval(1)[OF ok cap val tv refl refl refl refl refl refl refl refl]
      updateBody_fst countLines_def)

lemma spec_splice_set:
  "set (spec_splice cap b s l t) \<subseteq> set b \<union> set t"
proof -
  have "set (take cap (take s b @ t @ drop (s + l) b)) \<subseteq> set (take s b @ t @ drop (s + l) b)"
    by (rule set_take_subset)
  moreover have "set (take s b) \<subseteq> set b" by (rule set_take_subset)
  moreover have "set (drop (s + l) b) \<subseteq> set b" by (rule set_drop_subset)
  ultimately show ?thesis unfolding spec_splice_def by auto
qed

lemma spliceApply_postOK:
  assumes ok: "postOK (post (cl w))"
    and cap: "MaxLenBody cfg < 2 ^ 62"
    and val: "spliceValidate cfg (post (cl w)) req = None"
    and tv: "\<forall>r \<in> set (Text req). validRune r"
  shows "postOK (post (cl (snd (spliceApply cfg f req w))))"
    and "decodeRunes (body (post (cl (snd (spliceApply cfg f req w))))) =
       spec_splice (MaxLenBody cfg) (decodeRunes (body (post (cl w))))
         (unat (Start req)) (unat (Len req)) (Text req)"
proof -
  let ?old = "decodeRunes (body (post (cl w)))"
  let ?new = "spec_splice (MaxLenBody cfg) ?old (unat (Start req)) (unat (Len req)) (Text req)"
  let ?p' = "post (cl (snd (spliceApply cfg f req w)))"
  have p': "body ?p' = encodeRunes ?new" "len ?p' = int (length ?new)"
    by (simp_all add: spliceApply_post[OF ok cap val tv] countLines_def)
  have sub: "set ?new \<subseteq> set ?old \<union> set (Text req)" by (rule spec_splice_set)
  have v: "\<forall>r \<in> set ?new. validRune r"
    using sub postOK_D(2)[OF ok] tv by blast
  have z: "0 \<notin> set ?new"
    using sub postOK_D(3)[OF ok] spliceValidate_NoneD(6)[OF val] by blast
  show "postOK ?p'" using p'(1) v z p'(2) by (rule postOK_I(1))
  show "decodeRunes (body ?p') = ?new" using p'(1) v z p'(2) by (rule postOK_I(2))
qed

lemma spliceText_cases:
  obtains (same) "snd (spliceText cfg f data w) = w" "fst (spliceText cfg f data w) \<noteq> None"
  | (applied) t where "data = Inr t"
      "spliceValidate cfg (post (cl w))
         \<lparr>Start = Start t, Len = Len t, Text = decodeRunes (TextString t)\<rparr> = None"
      "spliceText cfg f data w = spliceApply cfg f
         \<lparr>Start = Start t, Len = Len t, Text = decodeRunes (TextString t)\<rparr> w"
proof (cases "id_post (post (cl w)) = 0")
  case True
  then have "spliceText cfg f data w = (Some ErrNoPostOpen, w)"
    by (simp add: spliceText_def hasPost_def)
  then show ?thesis using same by simp
next
  case False
  then have h: "hasPost (cl w) = (True, None)" by (simp add: hasPost_def)
  show ?thesis
  proof (cases data)
    case (Inl e)
    then have "spliceText cfg f data w = (Some e, w)"
      by (simp add: spliceText_def h UnmarshalJSON_def)
    then show ?thesis using same by simp
  next
    case (Inr t)
    let ?req = "\<lparr>Start = Start t, Len = Len t, Text = decodeRunes (TextString t)\<rparr>"
    have u: "UnmarshalJSON data = Inr ?req" using Inr by (simp add: UnmarshalJSON_def)
    show ?thesis
    proof (cases "IsPrintableRunes cfg (decodeRunes (TextString t)) True")
      case (Some e)
      then have "spliceText cfg f data w = (Some e, w)"
        by (simp add: spliceText_def h u)
      then show ?thesis using same by simp
    next
      case None
      show ?thesis
      proof (cases "spliceValidate cfg (post (cl w)) ?req")
        case (Some e)
        then have "spliceText cfg f data w = (Some e, w)"
          using None by (simp add: spliceText_def h u)
        then show ?thesis using same by simp
      next
        case v: None
        then have "spliceText cfg f data w = spliceApply cfg f ?req w"
          using None by (simp add: spliceText_def h u)
        then show ?thesis using applied[OF Inr v] by simp
      qed
    qed
  qed
qed

lemma spliceText_postOK:
  assumes "postOK (post (cl w))" "MaxLenBody cfg < 2 ^ 62"
  shows "postOK (post (cl (snd (spliceText cfg f data w))))"
proof (cases cfg f data w rule: spliceText_cases)
  case same
  then show ?thesis using assms(1) by simp
next
  case (applied t)
  have "\<forall>r \<in> set (Text \<lparr>Start = Start t, Len = Len t, Text = decodeRunes (TextString t)\<rparr>).
      validRune r"
    by (simp add: decodeRunes_valid)
  then show ?thesis
    using spliceApply_postOK(1)[OF assms applied(2)] applied(3) by simp
qed

lemma exec_postOK:
  assumes "postOK (post (cl w))" "MaxLenBody cfg < 2 ^ 62"
  shows "postOK (post (cl (snd (exec cfg x w))))"
proof -
  obtain f rq where x: "x = (f, rq)" by (cases x)
  show ?thesis
    using assms unfolding x
    by (cases rq) (simp_all add: appendRune_postOK backspace_postOK spliceText_postOK)
qed

lemma run_postOK:
  assumes "postOK (post (cl w))" "MaxLenBody cfg < 2 ^ 62"
  shows "postOK (post (cl (run cfg xs w)))"
  using assms(1)
proof (induction xs arbitrary: w)
  case Nil
  then show ?case by simp
next
  case (Cons x xs)
  then show ?case using exec_postOK[OF _ assms(2)] by simp
qed

section \<open>Concrete bodies\<close>

lemma decodeRunes_ascii:
  assumes "\<forall>b \<in> set bs. unat b < 128"
  shows "decodeRunes bs = map (\<lambda>b. runeOf (unat b)) bs"
  using assms by (induction bs) simp_all

lemma encodeRunes_ascii:
  assumes "\<forall>r \<in> set rs. unat r \<le> 127"
  shows "encodeRunes rs = map (\<lambda>r. byteOf (unat r)) rs"
  using assms by (induction rs) (simp_all add: encodeRunes_def encodeRune_def)

lemma bodyHello_runes: "decodeRunes bodyHello = [0x68, 0x65, 0x6C, 0x6C, 0x6F]"
  by (simp add: bodyHello_def runeOf_def)

lemma bodyHello_ok: "postOK (post0 bodyHello 5 0)"
proof -
  have "encodeRunes [0x68, 0x65, 0x6C, 0x6C, 0x6F] = bodyHello"
    by (simp add: encodeRunes_def encodeRune_def byteOf_def bodyHello_def)
  then show ?thesis
    by (simp add: postOK_def validUTF8_def runeLen_def post0_def bodyHello_runes)
qed

lemma cap0: "MaxLenBody cfg0 < 2 ^ 62"
  by (simp add: cfg0_def)

lemma bodyA_runes: "decodeRunes bodyA = replicate 1998 0x61"
proof -
  have "\<forall>b \<in> set bodyA. unat b < 128" by (simp add: bodyA_def)
  then have "decodeRunes bodyA = map (\<lambda>b. runeOf (unat b)) bodyA" by (rule decodeRunes_ascii)
  then show ?thesis by (simp add: bodyA_def runeOf_def)
qed

lemma encodeRunes_as: "encodeRunes (replicate n 0x61) = replicate n 0x61"
proof -
  have "\<forall>r \<in> set (replicate n (0x61 :: rune)). unat r \<le> 127" by simp
  then have "encodeRunes (replicate n 0x61) = map (\<lambda>r. byteOf (unat r)) (replicate n (0x61 :: rune))"
    by (rule encodeRunes_ascii)
  then show ?thesis by (simp add: byteOf_def)
qed

lemma bodyA_ok: "postOK (post0 bodyA 1998 0)"
  by (simp add: postOK_def validUTF8_def runeLen_def post0_def bodyA_runes encodeRunes_as)
    (simp add: bodyA_def)

lemma digits_runes:
  "decodeRunes digits = [0x30, 0x31, 0x32, 0x33, 0x34, 0x35, 0x36, 0x37, 0x38, 0x39]"
  by (simp add: digits_def runeOf_def)

lemma digits_encode:
  "encodeRunes [0x30, 0x31, 0x32, 0x33, 0x34, 0x35, 0x36, 0x37, 0x38, 0x39] = digits"
  by (simp add: encodeRunes_def encodeRune_def byteOf_def digits_def)

text \<open>The splice of the ten digits into the body of 1998 letters is accepted.\<close>

lemma spliceDigits_accepted:
  "fst (spliceText cfg0 nofault (Inr spliceDigits) (world0 (post0 bodyA 1998 0) store0)) = None"
proof -
  let ?w = "world0 (post0 bodyA 1998 0) store0"
  let ?t = "[0x30, 0x31, 0x32, 0x33, 0x34, 0x35, 0x36, 0x37, 0x38, 0x39] :: rune list"
  let ?req = "\<lparr>Start = 0, Len = 0, Text = ?t\<rparr>"
  have p: "post (cl ?w) = post0 bodyA 1998 0" by (simp add: world0_def)
  have bp: "body (post (cl ?w)) = bodyA" by (simp add: world0_def post0_def)
  have h1: "postOK (post (cl ?w))" using bodyA_ok by (simp add: p)
  have h: "hasPost (cl ?w) = (True, None)"
    by (simp add: hasPost_def world0_def post0_def)
  have u: "UnmarshalJSON (Inr spliceDigits) = Inr ?req"
    by (simp add: UnmarshalJSON_def spliceDigits_def digits_runes)
  have pr: "IsPrintableRunes cfg0 ?t True = None"
    by (simp add: cfg0_def printable0_def)
  have v: "spliceValidate cfg0 (post (cl ?w)) ?req = None"
    by (simp add: spliceValidate_def cfg0_def world0_def post0_def)
  have tv: "\<forall>r \<in> set (Text ?req). validRune r" by (simp add: validRune_def)
  have ap: "spliceText cfg0 nofault (Inr spliceDigits) ?w = spliceApply cfg0 nofault ?req ?w"
    by (simp add: spliceText_def h u pr v del: IsPrintableRunes.simps)
  have "fst (spliceApply cfg0 nofault ?req ?w) =
     (if int (MaxLinesBody cfg0) < int (countNewlines (encodeRunes
           (spec_splice (MaxLenBody cfg0) (decodeRunes (body (post (cl ?w))))
              (unat (Start ?req)) (unat (Len ?req)) (Text ?req))))
      then Some ErrTooManyLines
      else if nofault OpSetOpenBody then Some (ErrStore OpSetOpenBody) else None)"
    using h1 cap0 v tv by (rule spliceApply_fst)
  moreover have "spec_splice (MaxLenBody cfg0) (decodeRunes (body (post (cl ?w))))
              (unat (Start ?req)) (unat (Len ?req)) (Text ?req) = ?t @ replicate 1990 0x61"
    by (simp add: bp spec_splice_def bodyA_runes cfg0_def)
  moreover have "countNewlines (encodeRunes (?t @ replicate 1990 0x61)) = 0"
  proof -
    have e: "encodeRunes (?t @ replicate 1990 0x61) = digits @ replicate 1990 0x61"
      by (simp only: encodeRunes_append encodeRunes_as digits_encode)
    show ?thesis unfolding e by (simp add: countNewlines_def digits_def)
  qed
  ultimately show ?thesis unfolding ap by (simp add: nofault_def)
qed

section \<open>The limits after requests that succeed\<close>

lemma countNewlines_append: "countNewlines (xs @ ys) = countNewlines xs + countNewlines ys"
  by (simp add: countNewlines_def)

lemma byte_not_newline: "unat b \<noteq> 10 \<Longrightarrow> b \<noteq> (0x0A :: byte)"
  by auto

lemma rune_newline_iff: "(r = (0x0A :: rune)) = (unat r = 10)"
proof
  assume "r = 0x0A"
  then show "unat r = 10" by simp
next
  assume "unat r = 10"
  then have "runeOf (unat r) = runeOf 10" by simp
  then show "r = 0x0A" by (simp add: runeOf_unat) (simp add: runeOf_def)
qed

lemma countNewlines_encodeRune:
  "countNewlines (encodeRune r) = (if r = 0x0A then 1 else 0)"
proof (cases r rule: encodeRune_cases)
  case one
  have u: "unat (byteOf (unat r)) = unat r" using one(1) by (intro unat_byte) simp
  have "(byteOf (unat r) = 0x0A) = (unat r = 10)"
  proof
    assume "byteOf (unat r) = 0x0A"
    then have "unat (byteOf (unat r)) = 10" by simp
    then show "unat r = 10" using u by simp
  next
    assume "unat r = 10"
    then show "byteOf (unat r) = 0x0A" by (simp add: byteOf_def)
  qed
  then show ?thesis using one(3) by (simp add: countNewlines_def rune_newline_iff)
next
  case two
  have d: "unat r div 64 < 32" using two(2) by simp
  have "unat (byteOf (192 + unat r div 64)) = 192 + unat r div 64"
    using d by (intro unat_byte) simp
  then have a: "byteOf (192 + unat r div 64) \<noteq> 0x0A" by (intro byte_not_newline) simp
  have "unat (byteOf (128 + unat r mod 64)) = 128 + unat r mod 64"
    by (intro unat_byte) simp
  then have b: "byteOf (128 + unat r mod 64) \<noteq> 0x0A" by (intro byte_not_newline) simp
  have "unat r \<noteq> 10" using two(1) by simp
  then show ?thesis using two(4) a b by (simp add: countNewlines_def rune_newline_iff)
next
  case bad
  have "validRune 0x0A" by (simp add: validRune_def)
  then have "r \<noteq> 0x0A" using bad(1) by auto
  then show ?thesis using bad(2) by (simp add: countNewlines_def)
next
  case three
  have d: "unat r div 4096 < 16" using three(2) by simp
  have "unat (byteOf (224 + unat r div 4096)) = 224 + unat r div 4096"
    using d by (intro unat_byte) simp
  then have a: "byteOf (224 + unat r div 4096) \<noteq> 0x0A" by (intro byte_not_newline) simp
  have "unat (byteOf (128 + unat r div 64 mod 64)) = 128 + unat r div 64 mod 64"
    by (intro unat_byte) simp
  then have b: "byteOf (128 + unat r div 64 mod 64) \<noteq> 0x0A" by (intro byte_not_newline) simp
  have "unat (byteOf (128 + unat r mod 64)) = 128 + unat r mod 64"
    by (intro unat_byte) simp
  then have c: "byteOf (128 + unat r mod 64) \<noteq> 0x0A" by (intro byte_not_newline) simp
  have "unat r \<noteq> 10" using three(1) by simp
  then show ?thesis using three(4) a b c by (simp add: countNewlines_def rune_newline_iff)
next
  case four
  have d: "unat r div 262144 \<le> 4" using four(2) by simp
  have "unat (byteOf (240 + unat r div 262144)) = 240 + unat r div 262144"
    using d by (intro unat_byte) simp
  then have a: "byteOf (240 + unat r div 262144) \<noteq> 0x0A" by (intro byte_not_newline) simp
  have "unat (byteOf (128 + unat r div 4096 mod 64)) = 128 + unat r div 4096 mod 64"
    by (intro unat_byte) simp
  then have b: "byteOf (128 + unat r div 4096 mod 64) \<noteq> 0x0A"
    by (intro byte_not_newline) simp
  have "unat (byteOf (128 + unat r div 64 mod 64)) = 128 + unat r div 64 mod 64"
    by (intro unat_byte) simp
  then have c: "byteOf (128 + unat r div 64 mod 64) \<noteq> 0x0A" by (intro byte_not_newline) simp
  have "unat (byteOf (128 + unat r mod 64)) = 128 + unat r mod 64"
    by (intro unat_byte) simp
  then have e: "byteOf (128 + unat r mod 64) \<noteq> 0x0A" by (intro byte_not_newline) simp
  have "unat r \<noteq> 10" using four(1) by simp
  then show ?thesis using four(4) a b c e by (simp add: countNewlines_def rune_newline_iff)
qed

lemma appendRune_limits:
  assumes ok: "postOK (post (cl w))" and lim: "postInLimits cfg (post (cl w))"
    and succ: "fst (appendRune cfg f data w) = None"
  shows "postInLimits cfg (post (cl (snd (appendRune cfg f data w))))"
proof (cases data)
  case (Inl e)
  then have "fst (appendRune cfg f data w) \<noteq> None"
    by (auto simp: appendRune_def hasPost_def Let_def)
  then show ?thesis using succ by simp
next
  case (Inr r)
  let ?p = "post (cl w)"
  let ?p' = "post (cl (snd (appendRune cfg f data w)))"
  note a = appendRune_success[OF succ[unfolded Inr]]
  have p': "?p' = ?p\<lparr>lines := (if r = 0x0A then lines ?p + 1 else lines ?p),
         body := body ?p @ encodeRune r, len := len ?p + 1\<rparr>"
    using a(3) Inr by simp
  have ok': "postOK ?p'" using ok by (rule appendRune_postOK)
  have "lines ?p' = int (countNewlines (body ?p'))"
    using lim by (simp add: p' postInLimits_def countNewlines_append countNewlines_encodeRune)
  moreover have "lines ?p' \<le> int (MaxLinesBody cfg)"
    using lim a(5) by (simp add: p' postInLimits_def)
  moreover have "int (runeLen (body ?p')) = len ?p + 1"
    using ok' by (simp add: postOK_def p')
  then have "runeLen (body ?p') \<le> MaxLenBody cfg" using a(4) by simp
  ultimately show ?thesis by (simp add: postInLimits_def)
qed

lemma backspace_limits:
  assumes ok: "postOK (post (cl w))" and lim: "postInLimits cfg (post (cl w))"
    and succ: "fst (backspace cfg f w) = None"
  shows "postInLimits cfg (post (cl (snd (backspace cfg f w))))"
proof -
  let ?p = "post (cl w)"
  let ?p' = "post (cl (snd (backspace cfg f w)))"
  let ?old = "decodeRunes (body ?p)"
  obtain r n where d: "decodeLastRune (body ?p) = (r, n)" by (cases "decodeLastRune (body ?p)")
  note a = backspace_success[OF succ]
  have p': "?p' = ?p\<lparr>body := take (length (body ?p) - n) (body ?p),
         lines := (if r = 0x0A then lines ?p - 1 else lines ?p), len := len ?p - 1\<rparr>"
    using a(2) d by simp
  have b': "body ?p' = take (length (body ?p) - n) (body ?p)" and l': "len ?p' = len ?p - 1"
    by (simp_all add: p')
  note bs = postOK_backspace[OF ok a(1) d b' l']
  have ne: "?old \<noteq> []" using postOK_D(4)[OF ok] a(1) by auto
  have "body ?p = encodeRunes ?old" by (rule postOK_D(1)[OF ok])
  also have "\<dots> = encodeRunes (butlast ?old @ [last ?old])"
    by (simp only: append_butlast_last_id[OF ne])
  also have "\<dots> = encodeRunes (butlast ?old) @ encodeRune (last ?old)"
    by (rule encodeRunes_snoc)
  also have "\<dots> = body ?p' @ encodeRune r"
    by (simp only: bs(2,3))
  finally have sp: "body ?p = body ?p' @ encodeRune r" .
  have "countNewlines (body ?p' @ encodeRune r)
      = countNewlines (body ?p') + (if r = 0x0A then 1 else 0)"
    by (simp only: countNewlines_append countNewlines_encodeRune)
  then have cn: "countNewlines (body ?p) = countNewlines (body ?p') + (if r = 0x0A then 1 else 0)"
    by (simp only: sp[symmetric])
  have lp: "lines ?p' = (if r = 0x0A then lines ?p - 1 else lines ?p)" by (simp add: p')
  have L: "lines ?p = int (countNewlines (body ?p))"
    and LM: "lines ?p \<le> int (MaxLinesBody cfg)"
    and RL: "runeLen (body ?p) \<le> MaxLenBody cfg"
    using lim by (simp_all add: postInLimits_def)
  have "lines ?p' = int (countNewlines (body ?p'))"
    unfolding lp L cn by simp
  moreover have "lines ?p' \<le> int (MaxLinesBody cfg)"
    unfolding lp using LM by simp
  moreover have "runeLen (body ?p') \<le> MaxLenBody cfg"
  proof -
    have f1: "len ?p' = int (runeLen (body ?p'))" using bs(1) by (simp add: postOK_def)
    have f2: "len ?p = int (runeLen (body ?p))" using ok by (simp add: postOK_def)
    show ?thesis using f1 f2 l' RL by linarith
  qed
  ultimately show ?thesis by (simp add: postInLimits_def)
qed

lemma spec_splice_length: "length (spec_splice cap b s l t) \<le> cap"
  by (simp add: spec_splice_def)

lemma spliceText_limits:
  assumes ok: "postOK (post (cl w))" and cap: "MaxLenBody cfg < 2 ^ 62"
    and succ: "fst (spliceText cfg f data w) = None"
  shows "postInLimits cfg (post (cl (snd (spliceText cfg f data w))))"
proof (cases cfg f data w rule: spliceText_cases)
  case same
  then show ?thesis using succ by simp
next
  case (applied t)
  let ?req = "\<lparr>Start = Start t, Len = Len t, Text = decodeRunes (TextString t)\<rparr>"
  let ?new = "spec_splice (MaxLenBody cfg) (decodeRunes (body (post (cl w))))
      (unat (Start ?req)) (unat (Len ?req)) (Text ?req)"
  let ?p' = "post (cl (snd (spliceApply cfg f ?req w)))"
  have tv: "\<forall>r \<in> set (Text ?req). validRune r" by (simp add: decodeRunes_valid)
  have p': "?p' = countLines ((post (cl w))\<lparr>len := int (length ?new),
      body := encodeRunes ?new\<rparr>)"
    using ok cap applied(2) tv by (rule spliceApply_post)
  have "fst (spliceApply cfg f ?req w) = None" using succ applied(3) by simp
  then have "\<not> int (MaxLinesBody cfg) < int (countNewlines (encodeRunes ?new))"
    using spliceApply_fst[OF ok cap applied(2) tv, of f] by (auto split: if_splits)
  then have "lines ?p' \<le> int (MaxLinesBody cfg)" by (simp add: p' countLines_def)
  moreover have "lines ?p' = int (countNewlines (body ?p'))" by (simp add: p' countLines_def)
  moreover have "decodeRunes (body ?p') = ?new"
    using ok cap applied(2) tv by (rule spliceApply_postOK(2))
  then have "runeLen (body ?p') \<le> MaxLenBody cfg"
    using spec_splice_length by (simp add: runeLen_def)
  ultimately show ?thesis using applied(3) by (simp add: postInLimits_def)
qed

lemma exec_limits:
  assumes "postOK (post (cl w))" "postInLimits cfg (post (cl w))" "MaxLenBody cfg < 2 ^ 62"
    "fst (exec cfg x w) = None"
  shows "postInLimits cfg (post (cl (snd (exec cfg x w))))"
proof -
  obtain f rq where x: "x = (f, rq)" by (cases x)
  show ?thesis
    using assms unfolding x
    by (cases rq) (simp_all add: appendRune_limits backspace_limits spliceText_limits)
qed

text \<open>After requests that all succeed, on a post in order and within the limits, the
  post is within the limits.\<close>

lemma successful_requests_keep_limits:
  assumes "postOK (post (cl w))" "postInLimits cfg (post (cl w))" "MaxLenBody cfg < 2 ^ 62"
    "allSucceed cfg xs w"
  shows "postInLimits cfg (post (cl (run cfg xs w)))"
  using assms(1,2,4)
proof (induction xs arbitrary: w)
  case Nil
  then show ?case by simp
next
  case (Cons x xs)
  have s: "fst (exec cfg x w) = None" and r: "allSucceed cfg xs (snd (exec cfg x w))"
    using Cons.prems(3) by simp_all
  have "postOK (post (cl (snd (exec cfg x w))))"
    using Cons.prems(1) assms(3) by (rule exec_postOK)
  moreover have "postInLimits cfg (post (cl (snd (exec cfg x w))))"
    using Cons.prems(1,2) assms(3) s by (rule exec_limits)
  ultimately show ?case using Cons.IH r by simp
qed

section \<open>C1: operations without an open post\<close>

text \<open>
  C1 (amended). With no post open (\<open>c.post.id == 0\<close>) each of the six operations fails
  with \<open>errNoPostOpen\<close>. \<open>appendRune\<close>, \<open>backspace\<close>, \<open>spliceText\<close> and \<open>closePost\<close>
  leave the whole state as it was; \<open>insertImage\<close> and \<open>spoilerImage\<close> have already
  added \<open>CharScore\<close> to the client's spam score, and change nothing else.
\<close>

theorem no_post_open:
  assumes "id_post (post (cl w)) = 0"
  shows "appendRune cfg f d1 w = (Some ErrNoPostOpen, w)
       \<and> backspace cfg f w = (Some ErrNoPostOpen, w)
       \<and> spliceText cfg f d2 w = (Some ErrNoPostOpen, w)
       \<and> closePost cfg f w = (Some ErrNoPostOpen, w)
       \<and> insertImage cfg f d3 w = (Some ErrNoPostOpen, incrementSpamScore (CharScore cfg) w)
       \<and> spoilerImage cfg f w = (Some ErrNoPostOpen, incrementSpamScore (CharScore cfg) w)"
proof -
  have h: "hasPost (cl w) = (False, Some ErrNoPostOpen)"
    using assms by (simp add: hasPost_def)
  have h': "hasPost (cl (incrementSpamScore (CharScore cfg) w)) = (False, Some ErrNoPostOpen)"
    using assms by (simp add: hasPost_def incrementSpamScore_def)
  have "appendRune cfg f d1 w = (Some ErrNoPostOpen, w)"
    by (simp add: appendRune_def h)
  moreover have "backspace cfg f w = (Some ErrNoPostOpen, w)"
    by (simp add: backspace_def h)
  moreover have "spliceText cfg f d2 w = (Some ErrNoPostOpen, w)"
    by (simp add: spliceText_def h)
  moreover have "closePost cfg f w = (Some ErrNoPostOpen, w)"
    using assms by (simp add: closePost_def)
  moreover have "insertImage cfg f d3 w = (Some ErrNoPostOpen, incrementSpamScore (CharScore cfg) w)"
    by (simp add: insertImage_def h' Let_def)
  moreover have "spoilerImage cfg f w = (Some ErrNoPostOpen, incrementSpamScore (CharScore cfg) w)"
    by (simp add: spoilerImage_def h' Let_def)
  ultimately show ?thesis by simp
qed

theorem no_post_open_witness:
  "id_post (post (cl (world0 emptyPost store0))) = 0
   \<and> appendRune cfg0 nofault (Inr 0x61) (world0 emptyPost store0)
       = (Some ErrNoPostOpen, world0 emptyPost store0)
   \<and> backspace cfg0 nofault (world0 emptyPost store0)
       = (Some ErrNoPostOpen, world0 emptyPost store0)
   \<and> spliceText cfg0 nofault (Inr \<lparr>Start = 0, Len = 0, TextString = bodyHi\<rparr>)
         (world0 emptyPost store0)
       = (Some ErrNoPostOpen, world0 emptyPost store0)
   \<and> closePost cfg0 nofault (world0 emptyPost store0)
       = (Some ErrNoPostOpen, world0 emptyPost store0)
   \<and> insertImage cfg0 nofault (Inr (imageReq False)) (world0 emptyPost store0)
       = (Some ErrNoPostOpen, incrementSpamScore (CharScore cfg0) (world0 emptyPost store0))
   \<and> spoilerImage cfg0 nofault (world0 emptyPost store0)
       = (Some ErrNoPostOpen, incrementSpamScore (CharScore cfg0) (world0 emptyPost store0))"
proof -
  have h: "id_post (post (cl (world0 emptyPost store0))) = 0"
    by (simp add: world0_def emptyPost_def)
  show ?thesis
    using h no_post_open[OF h, of cfg0 nofault "Inr 0x61"
        "Inr \<lparr>Start = 0, Len = 0, TextString = bodyHi\<rparr>" "Inr (imageReq False)"]
    by simp
qed

text \<open>
  C1 as stated fails: with no post open, \<open>insertImage\<close> returns \<open>errNoPostOpen\<close> but
  the spam score of the client's IP has gone from 0 to 1.
\<close>

theorem no_post_open_counterexample:
  "id_post (post (cl (world0 emptyPost store0))) = 0
   \<and> fst (insertImage cfg0 nofault (Inr (imageReq False)) (world0 emptyPost store0))
       = Some ErrNoPostOpen
   \<and> spamByIP (st (world0 emptyPost store0)) ''10.0.0.1'' = 0
   \<and> spamByIP (st (snd (insertImage cfg0 nofault (Inr (imageReq False))
         (world0 emptyPost store0)))) ''10.0.0.1'' = 1"
  by (simp add: insertImage_def incrementSpamScore_def db_IncrementSpamScore_def hasPost_def
      cfg0_def world0_def emptyPost_def store0_def Let_def)

section \<open>C2: the splice is a replacement of runes\<close>

text \<open>
  C2. On an open post in order (UTF-8 body, \<open>len\<close> its number of runes, no NUL), with
  the cap below \<open>2^62\<close>, a splice request that \<open>spliceText\<close> accepts leaves as body the
  UTF-8 encoding of \<open>spec_splice\<close>: the runes before \<open>start\<close>, the runes of the text,
  the runes from \<open>start + len\<close> on, cut to \<open>MaxLenBody\<close> runes; the runes of the new
  body are exactly these and \<open>len\<close> is their number. The witness is the body "hello"
  with the splice of "EY" at 1 over 3 runes: the body becomes "hEYo" and \<open>len\<close> 4.
\<close>

theorem splice_is_replacement:
  assumes "postOK (post (cl w))"
    and "MaxLenBody cfg < 2 ^ 62"
    and "fst (spliceText cfg f (Inr req) w) = None"
    and "old = decodeRunes (body (post (cl w)))"
    and "new = spec_splice (MaxLenBody cfg) old (unat (Start req)) (unat (Len req))
                 (decodeRunes (TextString req))"
    and "p' = post (cl (snd (spliceText cfg f (Inr req) w)))"
  shows "decodeRunes (body p') = new \<and> body p' = encodeRunes new \<and> len p' = int (length new)"
proof (cases cfg f "Inr req :: error + spliceRequestString" w rule: spliceText_cases)
  case same
  then show ?thesis using assms(3) by simp
next
  case (applied t)
  then have t: "t = req" by simp
  let ?req = "\<lparr>Start = Start req, Len = Len req, Text = decodeRunes (TextString req)\<rparr>"
  have v: "spliceValidate cfg (post (cl w)) ?req = None" using applied(2) t by simp
  have tv: "\<forall>r \<in> set (Text ?req). validRune r" by (simp add: decodeRunes_valid)
  have e: "spliceText cfg f (Inr req) w = spliceApply cfg f ?req w" using applied(3) t by simp
  have "decodeRunes (body p') = new"
    using spliceApply_postOK(2)[OF assms(1,2) v tv] assms(4,5,6) e by simp
  moreover have "body p' = encodeRunes new \<and> len p' = int (length new)"
    using spliceApply_post[OF assms(1,2) v tv, of f] assms(4,5,6) e
    by (simp add: countLines_def)
  ultimately show ?thesis by simp
qed

theorem splice_is_replacement_witness:
  "postOK (post (cl (world0 (post0 bodyHello 5 0) store0)))
   \<and> MaxLenBody cfg0 < 2 ^ 62
   \<and> fst (spliceText cfg0 nofault (Inr spliceEY) (world0 (post0 bodyHello 5 0) store0)) = None
   \<and> spec_splice (MaxLenBody cfg0) (decodeRunes bodyHello) 1 3 (decodeRunes [0x45, 0x59])
       = [0x68, 0x45, 0x59, 0x6F]
   \<and> body (post (cl (snd (spliceText cfg0 nofault (Inr spliceEY)
          (world0 (post0 bodyHello 5 0) store0))))) = [0x68, 0x45, 0x59, 0x6F]
   \<and> len (post (cl (snd (spliceText cfg0 nofault (Inr spliceEY)
          (world0 (post0 bodyHello 5 0) store0))))) = 4"
proof -
  let ?w = "world0 (post0 bodyHello 5 0) store0"
  have p: "post (cl ?w) = post0 bodyHello 5 0" by (simp add: world0_def)
  have h1: "postOK (post (cl ?w))" using bodyHello_ok by (simp add: p)
  have tx: "decodeRunes [0x45, 0x59] = [0x45, 0x59]" by (simp add: runeOf_def)
  let ?req = "\<lparr>Start = 1, Len = 3, Text = [0x45, 0x59 :: rune]\<rparr>"
  have v: "spliceValidate cfg0 (post0 bodyHello 5 0) ?req = None"
    by (simp add: spliceValidate_def cfg0_def post0_def)
  have tv: "\<forall>r \<in> set (Text ?req). validRune r" by (simp add: validRune_def)
  have sp: "spec_splice (MaxLenBody cfg0) (decodeRunes bodyHello) 1 3 (decodeRunes [0x45, 0x59])
       = [0x68, 0x45, 0x59, 0x6F]"
    by (simp add: spec_splice_def bodyHello_runes runeOf_def cfg0_def)
  have en: "encodeRunes [0x68, 0x45, 0x59, 0x6F] = [0x68, 0x45, 0x59, 0x6F]"
    by (simp add: encodeRunes_def encodeRune_def byteOf_def)
  have h: "hasPost (cl ?w) = (True, None)"
    by (simp add: hasPost_def world0_def post0_def)
  have u: "UnmarshalJSON (Inr spliceEY) = Inr ?req"
    by (simp add: UnmarshalJSON_def spliceEY_def runeOf_def)
  have pr: "IsPrintableRunes cfg0 [0x45, 0x59] True = None"
    by (simp add: cfg0_def printable0_def)
  have ap: "spliceText cfg0 nofault (Inr spliceEY) ?w = spliceApply cfg0 nofault ?req ?w"
    by (simp add: spliceText_def h u pr v p del: IsPrintableRunes.simps)
  have nl: "countNewlines [0x68, 0x45, 0x59, 0x6F] = 0" by (simp add: countNewlines_def)
  have v': "spliceValidate cfg0 (post (cl ?w)) ?req = None" using v by (simp add: p)
  have "fst (spliceApply cfg0 nofault ?req ?w) =
     (if int (MaxLinesBody cfg0) < int (countNewlines (encodeRunes
           (spec_splice (MaxLenBody cfg0) (decodeRunes (body (post (cl ?w))))
              (unat (Start ?req)) (unat (Len ?req)) (Text ?req))))
      then Some ErrTooManyLines
      else if nofault OpSetOpenBody then Some (ErrStore OpSetOpenBody) else None)"
    using h1 cap0 v' tv by (rule spliceApply_fst)
  moreover have "spec_splice (MaxLenBody cfg0) (decodeRunes (body (post (cl ?w))))
              (unat (Start ?req)) (unat (Len ?req)) (Text ?req) = [0x68, 0x45, 0x59, 0x6F]"
  proof -
    have bp: "body (post (cl ?w)) = bodyHello" by (simp add: world0_def post0_def)
    show ?thesis by (simp add: bp spec_splice_def bodyHello_runes cfg0_def)
  qed
  ultimately have h3: "fst (spliceText cfg0 nofault (Inr spliceEY) ?w) = None"
    unfolding ap by (simp add: en nl nofault_def)
  have bp: "body (post (cl ?w)) = bodyHello" by (simp add: world0_def post0_def)
  have N: "spec_splice (MaxLenBody cfg0) (decodeRunes (body (post (cl ?w))))
      (unat (Start spliceEY)) (unat (Len spliceEY)) (decodeRunes (TextString spliceEY))
      = [0x68, 0x45, 0x59, 0x6F]"
    by (simp add: bp spliceEY_def spec_splice_def bodyHello_runes cfg0_def runeOf_def)
  note r = splice_is_replacement[OF h1 cap0 h3 refl refl refl, unfolded N]
  have "body (post (cl (snd (spliceText cfg0 nofault (Inr spliceEY) ?w))))
      = [0x68, 0x45, 0x59, 0x6F]"
    using r en by simp
  moreover have "len (post (cl (snd (spliceText cfg0 nofault (Inr spliceEY) ?w)))) = 4"
    using r by simp
  ultimately show ?thesis
    using h1 cap0 h3 sp by blast
qed

section \<open>C3: the line count after a rejected newline\<close>

lemma bodyLines_ok: "postOK (post0 bodyLines 100 100)"
proof -
  have "\<forall>b \<in> set bodyLines. unat b < 128" by (simp add: bodyLines_def)
  then have "decodeRunes bodyLines = map (\<lambda>b. runeOf (unat b)) bodyLines"
    by (rule decodeRunes_ascii)
  then have d: "decodeRunes bodyLines = replicate 100 0x0A"
    by (simp add: bodyLines_def runeOf_def)
  have "\<forall>r \<in> set (replicate 100 (0x0A :: rune)). unat r \<le> 127" by simp
  then have "encodeRunes (replicate 100 0x0A)
      = map (\<lambda>r. byteOf (unat r)) (replicate 100 (0x0A :: rune))"
    by (rule encodeRunes_ascii)
  then have e: "encodeRunes (replicate 100 0x0A) = bodyLines"
    by (simp add: byteOf_def bodyLines_def)
  show ?thesis
    by (simp add: postOK_def validUTF8_def runeLen_def post0_def d e)
qed

text \<open>
  C3, at the input where the code leaves it. The open post has a body of 100 newlines,
  \<open>len = 100\<close> and \<open>lines = 100\<close>, the limit \<open>MaxLinesBody\<close>: it is in order, its line
  count is its number of newlines and both limits hold. \<open>appendRune\<close> of a newline
  fails with \<open>errTooManyLines\<close>; it has already incremented \<open>c.post.lines\<close>, so
  afterwards \<open>lines\<close> is 101, above the limit, while the body still has 100 newlines.
\<close>

theorem rejected_newline_counted:
  "postOK (post0 bodyLines 100 100)
   \<and> lines (post0 bodyLines 100 100) = int (countNewlines (body (post0 bodyLines 100 100)))
   \<and> lines (post0 bodyLines 100 100) = int (MaxLinesBody cfg0)
   \<and> fst (appendRune cfg0 nofault (Inr 0x0A) (world0 (post0 bodyLines 100 100) store0))
       = Some ErrTooManyLines
   \<and> lines (post (cl (snd (appendRune cfg0 nofault (Inr 0x0A)
          (world0 (post0 bodyLines 100 100) store0))))) = 101
   \<and> countNewlines (body (post (cl (snd (appendRune cfg0 nofault (Inr 0x0A)
          (world0 (post0 bodyLines 100 100) store0)))))) = 100"
proof -
  have n: "countNewlines bodyLines = 100" by (simp add: countNewlines_def bodyLines_def)
  have a: "appendRune cfg0 nofault (Inr 0x0A) (world0 (post0 bodyLines 100 100) store0)
      = (Some ErrTooManyLines,
         setPost ((post0 bodyLines 100 100)\<lparr>lines := 101\<rparr>) (world0 (post0 bodyLines 100 100) store0))"
    by (simp add: appendRune_def hasPost_def cfg0_def world0_def post0_def setPost_def Let_def)
  have "lines (post0 bodyLines 100 100) = int (countNewlines (body (post0 bodyLines 100 100)))"
    by (simp add: post0_def n)
  moreover have "lines (post0 bodyLines 100 100) = int (MaxLinesBody cfg0)"
    by (simp add: post0_def cfg0_def)
  moreover have "countNewlines (body (post (cl (snd (appendRune cfg0 nofault (Inr 0x0A)
          (world0 (post0 bodyLines 100 100) store0)))))) = 100"
    unfolding a by (simp add: setPost_def post0_def n)
  moreover have "lines (post (cl (snd (appendRune cfg0 nofault (Inr 0x0A)
          (world0 (post0 bodyLines 100 100) store0))))) = 101"
    unfolding a by (simp add: setPost_def)
  ultimately show ?thesis using bodyLines_ok a by simp
qed

section \<open>C4: rune length and NUL\<close>

text \<open>
  C4. Start from an open post in order: the body is UTF-8, \<open>len\<close> is its number of
  runes and no rune is NUL. After any sequence of \<open>appendRune\<close>, \<open>backspace\<close> and
  \<open>spliceText\<close> requests, each run on the state the one before left, failed or not and
  whatever Store calls failed, the number of runes of the body is \<open>len\<close> and no rune of
  the body is NUL. The cap \<open>MaxLenBody\<close> is below \<open>2^62\<close>, so that the sum of two
  coordinates that passed the validation does not wrap.
\<close>

theorem text_ops_keep_len_and_no_nul:
  assumes "postOK (post (cl w))"
    and "MaxLenBody cfg < 2 ^ 62"
  shows "int (runeLen (body (post (cl (run cfg xs w))))) = len (post (cl (run cfg xs w)))
       \<and> 0 \<notin> set (decodeRunes (body (post (cl (run cfg xs w)))))"
  using run_postOK[OF assms, of xs] by (simp add: postOK_def)

theorem text_ops_keep_len_and_no_nul_witness:
  "postOK (post (cl (world0 (post0 bodyHello 5 0) store0)))
   \<and> MaxLenBody cfg0 < 2 ^ 62
   \<and> int (runeLen (body (post (cl (run cfg0 steps0 (world0 (post0 bodyHello 5 0) store0))))))
     = len (post (cl (run cfg0 steps0 (world0 (post0 bodyHello 5 0) store0))))
   \<and> 0 \<notin> set (decodeRunes (body (post (cl (run cfg0 steps0
          (world0 (post0 bodyHello 5 0) store0))))))"
proof -
  have h1: "postOK (post (cl (world0 (post0 bodyHello 5 0) store0)))"
    using bodyHello_ok by (simp add: world0_def)
  show ?thesis
    using h1 cap0 text_ops_keep_len_and_no_nul[OF h1 cap0, of steps0] by blast
qed

section \<open>C5: a splice that goes over the cap\<close>

lemma spliceText_accepted:
  assumes ok: "postOK (post (cl w))"
    and cap: "MaxLenBody cfg < 2 ^ 62"
    and acc: "fst (spliceText cfg f (Inr req) w) = None"
    and old: "old = decodeRunes (body (post (cl w)))"
    and t: "t = decodeRunes (TextString req)"
    and s: "s = unat (Start req)" and l: "l = unat (Len req)"
  shows "s + l \<le> length old" and "s \<le> MaxLenBody cfg"
    and "sent (fd (snd (spliceText cfg f (Inr req) w))) = sent (fd w) @
      [MessageSplice (id_post (post (cl w))) (Start req)
         (if MaxLenBody cfg + l < length old + length t then of_nat (length old - s)
          else Len req)
         (if MaxLenBody cfg + l < length old + length t
          then encodeRunes (take (MaxLenBody cfg - s) (t @ drop (s + l) old))
          else encodeRunes t)]"
proof -
  let ?req = "\<lparr>Start = Start req, Len = Len req, Text = decodeRunes (TextString req)\<rparr>"
  have "spliceValidate cfg (post (cl w)) ?req = None
      \<and> spliceText cfg f (Inr req) w = spliceApply cfg f ?req w"
  proof (cases cfg f "Inr req :: error + spliceRequestString" w rule: spliceText_cases)
    case same
    then show ?thesis using acc by simp
  next
    case (applied u)
    then show ?thesis by simp
  qed
  then have v: "spliceValidate cfg (post (cl w)) ?req = None"
    and e: "spliceText cfg f (Inr req) w = spliceApply cfg f ?req w" by simp_all
  have tv: "\<forall>r \<in> set (Text ?req). validRune r" by (simp add: decodeRunes_valid)
  note ev = spliceApply_eval[OF ok cap v tv refl refl refl refl refl refl refl refl]
  show "s + l \<le> length old" using ev(2) old s l by simp
  show "s \<le> MaxLenBody cfg" using spliceValidate_NoneD(1)[OF v] s by simp
  show "sent (fd (snd (spliceText cfg f (Inr req) w))) = sent (fd w) @
      [MessageSplice (id_post (post (cl w))) (Start req)
         (if MaxLenBody cfg + l < length old + length t then of_nat (length old - s)
          else Len req)
         (if MaxLenBody cfg + l < length old + length t
          then encodeRunes (take (MaxLenBody cfg - s) (t @ drop (s + l) old))
          else encodeRunes t)]"
    using acc unfolding e ev(1)
    by (simp add: updateBody_sent setPost_def old t s l split: if_splits)
qed

lemma spliceDigits_sent:
  "sent (fd (snd (spliceText cfg0 nofault (Inr spliceDigits)
       (world0 (post0 bodyA 1998 0) store0))))
   = [MessageSplice 101 0 1998 (digits @ replicate 1990 0x61)]"
proof -
  let ?w = "world0 (post0 bodyA 1998 0) store0"
  let ?t = "[0x30, 0x31, 0x32, 0x33, 0x34, 0x35, 0x36, 0x37, 0x38, 0x39] :: rune list"
  have p: "post (cl ?w) = post0 bodyA 1998 0" by (simp add: world0_def)
  have bp: "body (post (cl ?w)) = bodyA" by (simp add: world0_def post0_def)
  have h1: "postOK (post (cl ?w))" using bodyA_ok by (simp add: p)
  note a = spliceText_accepted(3)[OF h1 cap0 spliceDigits_accepted refl refl refl refl]
  have e: "encodeRunes (?t @ replicate 1990 0x61) = digits @ replicate 1990 0x61"
    by (simp only: encodeRunes_append encodeRunes_as digits_encode)
  have k: "take (MaxLenBody cfg0 - 0) (?t @ drop (0 + 0) (replicate 1998 0x61))
      = ?t @ replicate 1990 0x61"
    by (simp add: cfg0_def)
  have f0: "sent (fd ?w) = []" by (simp add: world0_def feed0_def)
  have i: "id_post (post (cl ?w)) = 101" by (simp add: world0_def post0_def)
  have c: "MaxLenBody cfg0 + 0 < length (replicate 1998 (0x61 :: rune)) + length ?t"
    by (simp add: cfg0_def)
  have sd: "Start spliceDigits = 0" "Len spliceDigits = 0"
    "decodeRunes (TextString spliceDigits) = ?t"
    by (simp_all add: spliceDigits_def digits_runes)
  have u0: "unat (0 :: 64 word) = 0" by simp
  show ?thesis
    using c unfolding a bp bodyA_runes sd u0 k e f0 i by simp
qed

text \<open>
  C5 (amended). On an open post in order, when the new rune length
  \<open>currentRuneLen - delLen + runeLen(text)\<close> of an accepted splice exceeds \<open>MaxLenBody\<close>,
  it is the text followed by the old runes from \<open>start + delLen\<close> on that is trimmed
  from the right by exactly the overflow amount; the broadcast splice message carries
  this trimmed sequence as its text and \<open>len = currentRuneLen - start\<close>. For a body of
  \<open>MaxLenBody - 2\<close> runes and a splice with \<open>start = 0\<close>, \<open>delLen = 0\<close> and a text of 10
  runes (and \<open>MaxLenBody\<close> at least 10), the broadcast text is the whole submitted text
  followed by the first \<open>MaxLenBody - 10\<close> runes of the body.
\<close>

theorem splice_overflow_broadcast:
  assumes "postOK (post (cl w))"
    and "MaxLenBody cfg < 2 ^ 62"
    and "fst (spliceText cfg f (Inr req) w) = None"
    and "old = decodeRunes (body (post (cl w)))"
    and "t = decodeRunes (TextString req)"
    and "s = unat (Start req)" and "l = unat (Len req)"
    and "MaxLenBody cfg + l < length old + length t"
    and "tail = t @ drop (s + l) old"
    and "overflow = length old + length t - (MaxLenBody cfg + l)"
  shows "sent (fd (snd (spliceText cfg f (Inr req) w))) = sent (fd w) @
      [MessageSplice (id_post (post (cl w))) (Start req) (of_nat (length old - s))
         (encodeRunes (take (length tail - overflow) tail))]
    \<and> (s = 0 \<and> l = 0 \<and> length t = 10 \<and> length old + 2 = MaxLenBody cfg
         \<and> 10 \<le> MaxLenBody cfg \<longrightarrow>
       take (length tail - overflow) tail = t @ take (MaxLenBody cfg - 10) old)"
proof -
  note a = spliceText_accepted[OF assms(1,2,3,4,5,6,7)]
  have k: "length tail - overflow = MaxLenBody cfg - s"
    using a(1,2) assms(8) unfolding assms(9,10) by simp
  have m: "sent (fd (snd (spliceText cfg f (Inr req) w))) = sent (fd w) @
      [MessageSplice (id_post (post (cl w))) (Start req) (of_nat (length old - s))
         (encodeRunes (take (length tail - overflow) tail))]"
    using a(3) assms(8) unfolding k by (simp add: assms(9) del: take_append)
  have x: "take (length tail - overflow) tail = t @ take (MaxLenBody cfg - 10) old"
    if "s = 0" "l = 0" "length t = 10" "10 \<le> MaxLenBody cfg"
  proof -
    have "take (MaxLenBody cfg - s) tail = t @ take (MaxLenBody cfg - 10) old"
      using that by (simp add: assms(9))
    then show ?thesis unfolding k .
  qed
  show ?thesis using m x by blast
qed

theorem splice_overflow_broadcast_witness:
  "postOK (post (cl (world0 (post0 bodyA 1998 0) store0)))
   \<and> MaxLenBody cfg0 < 2 ^ 62
   \<and> fst (spliceText cfg0 nofault (Inr spliceDigits) (world0 (post0 bodyA 1998 0) store0))
       = None
   \<and> unat (Start spliceDigits) = 0 \<and> unat (Len spliceDigits) = 0
   \<and> length (decodeRunes (TextString spliceDigits)) = 10
   \<and> length (decodeRunes bodyA) + 2 = MaxLenBody cfg0
   \<and> 10 \<le> MaxLenBody cfg0
   \<and> sent (fd (snd (spliceText cfg0 nofault (Inr spliceDigits)
          (world0 (post0 bodyA 1998 0) store0))))
       = sent (fd (world0 (post0 bodyA 1998 0) store0)) @
         [MessageSplice 101 0 (of_nat (length (decodeRunes bodyA)))
            (encodeRunes (decodeRunes digits @ take (MaxLenBody cfg0 - 10) (decodeRunes bodyA)))]"
proof -
  let ?w = "world0 (post0 bodyA 1998 0) store0"
  have p: "post (cl ?w) = post0 bodyA 1998 0" by (simp add: world0_def)
  have bp: "body (post (cl ?w)) = bodyA" by (simp add: world0_def post0_def)
  have i: "id_post (post (cl ?w)) = 101" by (simp add: world0_def post0_def)
  have h1: "postOK (post (cl ?w))" using bodyA_ok by (simp add: p)
  have sd: "Start spliceDigits = 0" "Len spliceDigits = 0" "TextString spliceDigits = digits"
    by (simp_all add: spliceDigits_def)
  have u0: "unat (0 :: 64 word) = 0" by simp
  have su: "unat (Start spliceDigits) = 0" "unat (Len spliceDigits) = 0"
    by (simp_all add: sd)
  have lt: "length (decodeRunes digits) = 10" by (simp add: digits_runes)
  have lo: "length (decodeRunes bodyA) + 2 = MaxLenBody cfg0"
    by (simp add: bodyA_runes cfg0_def)
  have m: "10 \<le> MaxLenBody cfg0" by (simp add: cfg0_def)
  have c: "MaxLenBody cfg0 + unat (Len spliceDigits)
      < length (decodeRunes (body (post (cl ?w)))) + length (decodeRunes (TextString spliceDigits))"
    by (simp add: sd bp bodyA_runes digits_runes cfg0_def)
  note th = splice_overflow_broadcast[OF h1 cap0 spliceDigits_accepted refl refl refl refl c
      refl refl]
  have x: "take (length (decodeRunes digits @ drop (0 + 0) (decodeRunes bodyA))
              - (length (decodeRunes bodyA) + length (decodeRunes digits) - (MaxLenBody cfg0 + 0)))
            (decodeRunes digits @ drop (0 + 0) (decodeRunes bodyA))
      = decodeRunes digits @ take (MaxLenBody cfg0 - 10) (decodeRunes bodyA)"
    using th lt lo m unfolding sd u0 bp by blast
  have "sent (fd (snd (spliceText cfg0 nofault (Inr spliceDigits) ?w)))
       = sent (fd ?w) @
         [MessageSplice 101 0 (of_nat (length (decodeRunes bodyA)))
            (encodeRunes (decodeRunes digits @ take (MaxLenBody cfg0 - 10) (decodeRunes bodyA)))]"
    using th unfolding sd u0 bp i x by simp
  then show ?thesis
    using h1 cap0 spliceDigits_accepted su lt lo m by (simp add: sd)
qed

text \<open>
  C5 as stated fails: the body has 1998 runes, two below the cap of 2000, and the ten
  digits are inserted at its start, so the overflow is 8. The broadcast message has
  \<open>len\<close> 1998 and as text all ten digits followed by 1990 letters of the body: the
  text keeps its ten runes, it is not trimmed to its first two.
\<close>

theorem splice_overflow_counterexample:
  "runeLen bodyA + 2 = MaxLenBody cfg0
   \<and> runeLen digits = 10
   \<and> fst (spliceText cfg0 nofault (Inr spliceDigits) (world0 (post0 bodyA 1998 0) store0))
       = None
   \<and> sent (fd (snd (spliceText cfg0 nofault (Inr spliceDigits)
          (world0 (post0 bodyA 1998 0) store0))))
       = [MessageSplice 101 0 1998 (digits @ replicate 1990 0x61)]
   \<and> digits @ replicate 1990 0x61 \<noteq> take 2 digits @ replicate 1990 0x61"
proof -
  have "runeLen bodyA + 2 = MaxLenBody cfg0"
    by (simp add: runeLen_def bodyA_runes cfg0_def)
  moreover have "runeLen digits = 10" by (simp add: runeLen_def digits_runes)
  moreover have "digits @ replicate 1990 0x61 \<noteq> take 2 digits @ replicate 1990 (0x61 :: byte)"
    by (simp add: digits_def)
  ultimately show ?thesis
    using spliceDigits_accepted spliceDigits_sent by blast
qed

section \<open>C6: closePost and the parser\<close>

lemma stealImage_frame:
  "post (cl (snd (stealImage cfg f links w))) = post (cl w)
   \<and> closedPosts (st (snd (stealImage cfg f links w))) = closedPosts (st w)"
  by (simp add: stealImage_def Let_def db_TransferImage_def EncodeMessage_def feed_Send_def
      incrementSpamScore_def db_IncrementSpamScore_def split: option.splits)

lemma closeFilters_result:
  "fst (closeFilters cfg w) = None
   \<and> post (cl (snd (closeFilters cfg w))) =
       (post (cl w))\<lparr>body := (if RegisterFilter cfg (op (post (cl w))) (body (post (cl w)))
          then body (post (cl w))
          else snd (ApplyFilters cfg (op (post (cl w))) (body (post (cl w)))))\<rparr>
   \<and> ip (cl (snd (closeFilters cfg w))) = ip (cl w)
   \<and> st (snd (closeFilters cfg w)) = st w"
  by (simp add: closeFilters_def Let_def EncodeMessage_def setPost_def split: prod.splits)

text \<open>
  C6 (amended). For a post with a non-empty body (\<open>c.post.len != 0\<close>), a \<open>closePost\<close>
  that succeeds records the links and commands that \<open>parser.ParseBody\<close> returns for the
  body as the filters left it, the board, the thread, the post id and the client's IP,
  with \<open>false\<close> as its last argument; the body recorded is that body.
\<close>

theorem closePost_parses_with_false:
  assumes "id_post (post (cl w)) \<noteq> 0"
    and "len (post (cl w)) \<noteq> 0"
    and "fst (closePost cfg f w) = None"
    and "b = (if RegisterFilter cfg (op (post (cl w))) (body (post (cl w)))
              then body (post (cl w))
              else snd (ApplyFilters cfg (op (post (cl w))) (body (post (cl w)))))"
  shows "\<exists>links com.
      ParseBody cfg b (board (post (cl w))) (op (post (cl w))) (id_post (post (cl w)))
        (ip (cl w)) False = Inr (links, com)
    \<and> closedPosts (st (snd (closePost cfg f w))) (id_post (post (cl w))) = Some (b, links, com)"
proof -
  let ?p = "post (cl w)"
  obtain w1 where cf: "closeFilters cfg w = (None, w1)"
    and p1: "post (cl w1) = ?p\<lparr>body := b\<rparr>" and ip1: "ip (cl w1) = ip (cl w)"
    using closeFilters_result[of cfg w] assms(4) by (cases "closeFilters cfg w") auto
  show ?thesis
  proof (cases "ParseBody cfg b (board ?p) (op ?p) (id_post ?p) (ip (cl w)) False")
    case (Inl e)
    then have "fst (closePost cfg f w) = Some e"
      using assms(1,2) by (simp add: closePost_def cf p1 ip1 Let_def)
    then show ?thesis using assms(3) by simp
  next
    case (Inr lc)
    obtain links com where lc: "lc = (links, com)" by (cases lc)
    obtain e2 w2 where si: "stealImage cfg f links w1 = (e2, w2)"
      by (cases "stealImage cfg f links w1")
    have p2: "post (cl w2) = ?p\<lparr>body := b\<rparr>" and c2: "closedPosts (st w2) = closedPosts (st w1)"
      using stealImage_frame[of cfg f links w1] si p1 by simp_all
    have "closedPosts (st (snd (closePost cfg f w))) (id_post ?p) = Some (b, links, com)"
      using assms(1,2,3) Inr lc
      by (auto simp: closePost_def cf p1 ip1 si p2 Let_def db_ClosePost_def setPost_def
          split: if_splits)
    then show ?thesis using Inr lc by simp
  qed
qed

theorem closePost_parses_with_false_witness:
  "id_post (post (cl (world0 (post0 bodyHi 2 0) store0))) \<noteq> 0
   \<and> len (post (cl (world0 (post0 bodyHi 2 0) store0))) \<noteq> 0
   \<and> fst (closePost cfgFlag nofault (world0 (post0 bodyHi 2 0) store0)) = None
   \<and> ParseBody cfgFlag bodyHi ''g'' 42 101 ''10.0.0.1'' False = Inr ([], [])
   \<and> closedPosts (st (snd (closePost cfgFlag nofault (world0 (post0 bodyHi 2 0) store0)))) 101
       = Some (bodyHi, [], [])"
proof -
  let ?w = "world0 (post0 bodyHi 2 0) store0"
  have h1: "id_post (post (cl ?w)) \<noteq> 0" and h2: "len (post (cl ?w)) \<noteq> 0"
    by (simp_all add: world0_def post0_def)
  have h3: "fst (closePost cfgFlag nofault ?w) = None"
    by (simp add: closePost_def closeFilters_def stealImage_def db_ClosePost_def setPost_def
        cfgFlag_def cfg0_def nofault_def world0_def post0_def Let_def)
  have b: "bodyHi = (if RegisterFilter cfgFlag (op (post (cl ?w))) (body (post (cl ?w)))
              then body (post (cl ?w))
              else snd (ApplyFilters cfgFlag (op (post (cl ?w))) (body (post (cl ?w)))))"
    by (simp add: cfgFlag_def cfg0_def world0_def post0_def)
  have pb: "ParseBody cfgFlag bodyHi ''g'' 42 101 ''10.0.0.1'' False = Inr ([], [])"
    by (simp add: cfgFlag_def)
  have v: "board (post (cl ?w)) = ''g''" "op (post (cl ?w)) = 42" "id_post (post (cl ?w)) = 101"
    "ip (cl ?w) = ''10.0.0.1''"
    by (simp_all add: world0_def post0_def)
  show ?thesis
    using h1 h2 h3 pb closePost_parses_with_false[OF h1 h2 h3 b]
    by (simp add: v)
qed

text \<open>
  C6 as stated fails: with a parser whose links depend on its last argument, the links
  that \<open>closePost\<close> records for the body "hi" are those of the call with \<open>false\<close>, not
  those of the call with \<open>true\<close>.
\<close>

theorem closePost_final_flag_counterexample:
  "len (post (cl (world0 (post0 bodyHi 2 0) store0))) = 2
   \<and> fst (closePost cfgFlag nofault (world0 (post0 bodyHi 2 0) store0)) = None
   \<and> closedPosts (st (snd (closePost cfgFlag nofault (world0 (post0 bodyHi 2 0) store0)))) 101
       = Some (bodyHi, [], [])
   \<and> ParseBody cfgFlag bodyHi ''g'' 42 101 ''10.0.0.1'' True = Inr ([link0], [])"
  by (simp add: closePost_def closeFilters_def stealImage_def db_ClosePost_def setPost_def
      cfgFlag_def cfg0_def nofault_def world0_def post0_def store0_def Let_def)

section \<open>C7: insertImage on a post that has an image\<close>

text \<open>
  C7 (amended). Whether the open post already has an image is decided by the Store
  lookup \<open>db.HasImage(c.post.id)\<close> alone. When the Store has one, \<open>insertImage\<close> is a
  NOP: it returns no error, whatever the request and the client-side flags are, and the
  state is the one before the call with \<open>CharScore\<close> added to the spam score.
\<close>

theorem insertImage_has_image_nop:
  assumes "id_post (post (cl w)) \<noteq> 0"
    and "images (st w) (id_post (post (cl w))) \<noteq> None"
    and "\<not> f OpHasImage"
  shows "insertImage cfg f data w = (None, incrementSpamScore (CharScore cfg) w)"
proof -
  let ?w0 = "incrementSpamScore (CharScore cfg) w"
  have h: "hasPost (cl ?w0) = (True, None)"
    using assms(1) by (simp add: hasPost_def incrementSpamScore_def)
  have "db_HasImage f (id_post (post (cl ?w0))) (st ?w0) = Inr True"
    using assms(2,3)
    by (simp add: db_HasImage_def incrementSpamScore_def db_IncrementSpamScore_def)
  then have "hasImage f ?w0 = (Inr True, ?w0)"
    by (simp add: hasImage_def)
  then show ?thesis
    by (simp add: insertImage_def h Let_def)
qed

theorem insertImage_has_image_nop_witness:
  "id_post (post (cl (world0 (post0 bodyHi 2 0) storeImg))) \<noteq> 0
   \<and> images (st (world0 (post0 bodyHi 2 0) storeImg))
        (id_post (post (cl (world0 (post0 bodyHi 2 0) storeImg)))) \<noteq> None
   \<and> \<not> nofault OpHasImage
   \<and> insertImage cfg0 nofault (Inr (imageReq True)) (world0 (post0 bodyHi 2 0) storeImg)
       = (None, incrementSpamScore (CharScore cfg0) (world0 (post0 bodyHi 2 0) storeImg))"
proof -
  have a: "id_post (post (cl (world0 (post0 bodyHi 2 0) storeImg))) \<noteq> 0"
    by (simp add: world0_def post0_def)
  have b: "images (st (world0 (post0 bodyHi 2 0) storeImg))
        (id_post (post (cl (world0 (post0 bodyHi 2 0) storeImg)))) \<noteq> None"
    by (simp add: world0_def post0_def storeImg_def store0_def)
  have c: "\<not> nofault OpHasImage" by (simp add: nofault_def)
  show ?thesis
    using a b c
      insertImage_has_image_nop[where w = "world0 (post0 bodyHi 2 0) storeImg" and f = nofault
        and cfg = cfg0 and data = "Inr (imageReq True)", OF a b c]
    by simp
qed

text \<open>
  C7 as stated fails: post 101 has an image in the Store, and \<open>insertImage\<close> returns
  no error instead of \<open>errHasImage\<close>.
\<close>

theorem insertImage_has_image_counterexample:
  "images (st (world0 (post0 bodyHi 2 0) storeImg)) 101 = Some image0
   \<and> fst (insertImage cfg0 nofault (Inr (imageReq False)) (world0 (post0 bodyHi 2 0) storeImg))
       = None"
  by (simp add: insertImage_def incrementSpamScore_def db_IncrementSpamScore_def hasPost_def
      hasImage_def db_HasImage_def cfg0_def nofault_def world0_def post0_def storeImg_def
      store0_def Let_def)

section \<open>C8: insertImage and the spam score\<close>

lemma hasImage_spam: "spamByIP (st (snd (hasImage f w))) = spamByIP (st w)
    \<and> spamBySession (st (snd (hasImage f w))) = spamBySession (st w)
    \<and> ip (cl (snd (hasImage f w))) = ip (cl w)
    \<and> captchaSession (cl (snd (hasImage f w))) = captchaSession (cl w)"
  by (simp add: hasImage_def setPost_def split: sum.splits)

lemma db_InsertImage_spam:
  "db_InsertImage f n token name spoiler s = Inr (img, s') \<Longrightarrow>
     spamByIP s' = spamByIP s \<and> spamBySession s' = spamBySession s"
  by (auto simp: db_InsertImage_def Let_def split: if_splits option.splits)

text \<open>
  C8 (amended). \<open>insertImage\<close> starts with
  \<open>c.incrementSpamScore(config.Get().CharScore)\<close>, before any check. Every call,
  whatever its outcome, adds exactly \<open>CharScore\<close> to the spam score of the client's
  IP and of its captcha session, and changes no other spam score; \<open>ImageScore\<close> is
  not added.
\<close>

theorem insertImage_adds_CharScore:
  "spamByIP (st (snd (insertImage cfg f data w))) =
     (spamByIP (st w))(ip (cl w) := spamByIP (st w) (ip (cl w)) + CharScore cfg)
   \<and> spamBySession (st (snd (insertImage cfg f data w))) =
     (spamBySession (st w))(captchaSession (cl w) :=
        spamBySession (st w) (captchaSession (cl w)) + CharScore cfg)"
proof -
  define w0 where "w0 = incrementSpamScore (CharScore cfg) w"
  have a: "spamByIP (st w0) = (spamByIP (st w))(ip (cl w) := spamByIP (st w) (ip (cl w)) + CharScore cfg)"
    "spamBySession (st w0) = (spamBySession (st w))(captchaSession (cl w) :=
        spamBySession (st w) (captchaSession (cl w)) + CharScore cfg)"
    by (simp_all add: w0_def incrementSpamScore_def db_IncrementSpamScore_def)
  obtain r w1 where h: "hasImage f w0 = (r, w1)" by (cases "hasImage f w0")
  have b: "spamByIP (st w1) = spamByIP (st w0)" "spamBySession (st w1) = spamBySession (st w0)"
    using hasImage_spam[of f w0] h by simp_all
  have "spamByIP (st (snd (insertImage cfg f data w))) = spamByIP (st w0)
      \<and> spamBySession (st (snd (insertImage cfg f data w))) = spamBySession (st w0)"
    unfolding insertImage_def w0_def[symmetric] Let_def
    using h b
    by (auto simp: setPost_def dest: db_InsertImage_spam
        split: prod.splits sum.splits bool.splits)
  then show ?thesis using a by simp
qed

text \<open>
  C8 as stated fails: a client with post 101 open and no image inserts the staged
  image; its spam score is 0 before the call and 1 after it.
\<close>

theorem insertImage_spam_counterexample:
  "spamByIP (st (snd (insertImage cfg0 nofault (Inr (imageReq False))
       (world0 (post0 [] 0 0) storeStaged)))) ''10.0.0.1''
   \<noteq> spamByIP (st (world0 (post0 [] 0 0) storeStaged)) ''10.0.0.1''"
  by (simp add: insertImage_def incrementSpamScore_def db_IncrementSpamScore_def hasPost_def
      hasImage_def db_HasImage_def db_InsertImage_def setPost_def feed_InsertImage_def
      cfg0_def nofault_def world0_def post0_def storeStaged_def store0_def imageReq_def feed0_def
      Let_def)

section \<open>C9: append, then backspace\<close>

text \<open>
  C9. When \<open>appendRune\<close> succeeds on an open post (with \<open>len\<close> not negative, as in
  every open post), the \<open>backspace\<close> that follows gives back the whole open post as it
  was before the append: body, \<open>len\<close>, \<open>lines\<close> and the other fields; it returns no
  error unless its own Store write fails. The rune may take one to four bytes, or be
  one that \<open>string(r)\<close> writes as \<open>RuneError\<close>.
\<close>

theorem append_then_backspace:
  assumes "fst (appendRune cfg f1 (Inr r) w) = None"
    and "0 \<le> len (post (cl w))"
    and "w1 = snd (appendRune cfg f1 (Inr r) w)"
  shows "post (cl (snd (backspace cfg f2 w1))) = post (cl w)
       \<and> (\<not> f2 OpSetOpenBody \<longrightarrow> fst (backspace cfg f2 w1) = None)"
proof -
  let ?p = "post (cl w)"
  let ?p1 = "?p\<lparr>lines := (if r = 0x0A then lines ?p + 1 else lines ?p),
         body := body ?p @ encodeRune r, len := len ?p + 1\<rparr>"
  have c1: "cl w1 = (cl w)\<lparr>post := ?p1\<rparr>"
    using appendRune_success(3)[OF assms(1)] assms(3) by simp
  have p1: "post (cl w1) = ?p1" by (simp add: c1)
  have h: "hasPost (cl w1) = (True, None)"
    using appendRune_success(1)[OF assms(1)] by (simp add: hasPost_def c1)
  have l: "len ?p1 \<noteq> 0" using assms(2) by simp
  have d: "decodeLastRune (body ?p @ encodeRune r) = (sanitize r, length (encodeRune r))"
    by (simp add: decodeLastRune_encodeRune)
  have nl: "sanitize r = 0x0A \<longleftrightarrow> r = 0x0A"
    by (auto simp: sanitize_def RuneError_def validRune_def)
  have "backspace cfg f2 w1 =
      updateBody cfg f2 (MessageBackspace (id_post ?p)) 1 (setPost ?p w1)"
    using l by (simp add: backspace_def h p1 d nl Let_def EncodeMessage_def setPost_def)
  then show ?thesis
    by (simp add: updateBody_cl updateBody_fst setPost_def)
qed

theorem append_then_backspace_witness:
  "fst (appendRune cfg0 nofault (Inr 0x20AC) (world0 (post0 bodyHello 5 0) store0)) = None
   \<and> 0 \<le> len (post (cl (world0 (post0 bodyHello 5 0) store0)))
   \<and> body (post (cl (snd (appendRune cfg0 nofault (Inr 0x20AC)
          (world0 (post0 bodyHello 5 0) store0))))) = bodyHello @ [0xE2, 0x82, 0xAC]
   \<and> \<not> nofault OpSetOpenBody
   \<and> post (cl (snd (backspace cfg0 nofault
          (snd (appendRune cfg0 nofault (Inr 0x20AC) (world0 (post0 bodyHello 5 0) store0))))))
       = post0 bodyHello 5 0
   \<and> fst (backspace cfg0 nofault
          (snd (appendRune cfg0 nofault (Inr 0x20AC) (world0 (post0 bodyHello 5 0) store0))))
       = None"
proof -
  let ?w = "world0 (post0 bodyHello 5 0) store0"
  have e: "encodeRune 0x20AC = [0xE2, 0x82, 0xAC]"
    by (simp add: encodeRune_def byteOf_def)
  have a: "appendRune cfg0 nofault (Inr 0x20AC) ?w =
      updateBody cfg0 nofault (MessageAppend 101 0x20AC) 1
        (setPost ((post0 bodyHello 5 0)\<lparr>body := bodyHello @ [0xE2, 0x82, 0xAC], len := 6\<rparr>) ?w)"
    by (simp add: appendRune_def hasPost_def cfg0_def printable0_def world0_def post0_def
        EncodeMessage_def setPost_def e Let_def)
  have nf: "\<not> nofault OpSetOpenBody" by (simp add: nofault_def)
  have h1: "fst (appendRune cfg0 nofault (Inr 0x20AC) ?w) = None"
    using nf by (simp add: a updateBody_fst)
  have h2: "0 \<le> len (post (cl ?w))" by (simp add: world0_def post0_def)
  have b: "body (post (cl (snd (appendRune cfg0 nofault (Inr 0x20AC) ?w))))
      = bodyHello @ [0xE2, 0x82, 0xAC]"
    by (simp add: a updateBody_cl setPost_def)
  have p: "post (cl ?w) = post0 bodyHello 5 0" by (simp add: world0_def)
  show ?thesis
    using h1 h2 b nf append_then_backspace[OF h1 h2 refl, where ?f2.0 = nofault]
    by (simp add: p)
qed

section \<open>C10: the spoiler flag after the image is gone\<close>

lemma insertImage_inserted:
  assumes id: "id_post (post (cl w)) \<noteq> 0"
    and none: "images (st w) (id_post (post (cl w))) = None"
    and ok: "fst (insertImage cfg f (Inr req) w) = None"
  shows "\<exists>fl. staged (st w) (ReqToken req) = Some fl \<and> snd (insertImage cfg f (Inr req) w) =
      w\<lparr>cl := (cl w)\<lparr>post := (post (cl w))\<lparr>isSpoilered := ReqSpoiler req\<rparr>\<rparr>,
       fd := feed_InsertImage (id_post (post (cl w))) (ReqSpoiler req)
              (MessageInsertImage (id_post (post (cl w)))
                 \<lparr>Name = formatImageName cfg (ReqName req), File = fl,
                    Spoiler = ReqSpoiler req\<rparr>) (fd w),
       st := (st (incrementSpamScore (CharScore cfg) w))
              \<lparr>images := (images (st w))(id_post (post (cl w)) \<mapsto>
                   \<lparr>Name = formatImageName cfg (ReqName req), File = fl,
                      Spoiler = ReqSpoiler req\<rparr>),
                staged := (staged (st w))(ReqToken req := None)\<rparr>\<rparr>"
proof -
  let ?w0 = "incrementSpamScore (CharScore cfg) w"
  have h: "hasPost (cl ?w0) = (True, None)"
    using id by (simp add: hasPost_def incrementSpamScore_def)
  have nf: "\<not> f OpHasImage"
  proof
    assume "f OpHasImage"
    then have "hasImage f ?w0 = (Inl (ErrStore OpHasImage), ?w0)"
      by (simp add: hasImage_def db_HasImage_def)
    then show False using ok by (simp add: insertImage_def h Let_def)
  qed
  have bodyHi: "hasImage f ?w0 = (Inr False, setPost ((post (cl ?w0))\<lparr>isSpoilered := False\<rparr>) ?w0)"
    using none nf
    by (simp add: hasImage_def db_HasImage_def incrementSpamScore_def db_IncrementSpamScore_def)
  show ?thesis
    using ok unfolding insertImage_def Let_def h bodyHi
    by (auto simp: setPost_def incrementSpamScore_def db_IncrementSpamScore_def
        db_InsertImage_def Let_def split: if_splits option.splits)
qed

text \<open>
  C10 (amended). When \<open>hasImage\<close> finds no image in the Store it clears
  \<open>isSpoilered\<close>. After the image of the open post is gone from the Store, a
  successful \<open>insertImage\<close> sets \<open>isSpoilered\<close>, and the spoiler flag of the stored
  image, to the spoiler flag of the request, whatever the stale flag was. When the
  request's flag is false, a following \<open>spoilerImage\<close> whose Store calls do not fail
  returns no error, sets the spoiler flag of the stored image and broadcasts
  \<open>MessageSpoiler\<close>.
\<close>

theorem respoiler_after_removal:
  assumes "id_post (post (cl w)) \<noteq> 0"
    and "images (st w) (id_post (post (cl w))) = None"
    and "fst (insertImage cfg f1 (Inr req) w) = None"
    and "\<not> f2 OpHasImage" and "\<not> f2 OpSpoilerImage"
    and "w1 = snd (insertImage cfg f1 (Inr req) w)"
    and "w2 = snd (spoilerImage cfg f2 w1)"
  shows "(\<not> g OpHasImage \<longrightarrow> \<not> isSpoilered (post (cl (snd (hasImage g w)))))
       \<and> isSpoilered (post (cl w1)) = ReqSpoiler req
       \<and> (\<exists>img. images (st w1) (id_post (post (cl w))) = Some img
                \<and> Spoiler img = ReqSpoiler req)
       \<and> (\<not> ReqSpoiler req \<longrightarrow>
             fst (spoilerImage cfg f2 w1) = None
           \<and> sent (fd w2) = sent (fd w1) @ [MessageSpoiler (id_post (post (cl w)))]
           \<and> (\<exists>img. images (st w2) (id_post (post (cl w))) = Some img \<and> Spoiler img))"
proof -
  let ?n = "id_post (post (cl w))"
  have a: "\<not> g OpHasImage \<longrightarrow> \<not> isSpoilered (post (cl (snd (hasImage g w))))"
    using assms(2) by (simp add: hasImage_def db_HasImage_def setPost_def)
  obtain fl where w1: "w1 =
      w\<lparr>cl := (cl w)\<lparr>post := (post (cl w))\<lparr>isSpoilered := ReqSpoiler req\<rparr>\<rparr>,
       fd := feed_InsertImage ?n (ReqSpoiler req)
              (MessageInsertImage ?n
                 \<lparr>Name = formatImageName cfg (ReqName req), File = fl,
                    Spoiler = ReqSpoiler req\<rparr>) (fd w),
       st := (st (incrementSpamScore (CharScore cfg) w))
              \<lparr>images := (images (st w))(?n \<mapsto>
                   \<lparr>Name = formatImageName cfg (ReqName req), File = fl,
                      Spoiler = ReqSpoiler req\<rparr>),
                staged := (staged (st w))(ReqToken req := None)\<rparr>\<rparr>"
    using insertImage_inserted[OF assms(1,2,3)] assms(6) by auto
  have b: "isSpoilered (post (cl w1)) = ReqSpoiler req" by (simp add: w1)
  have c: "\<exists>img. images (st w1) ?n = Some img \<and> Spoiler img = ReqSpoiler req"
    by (simp add: w1)
  have d: "fst (spoilerImage cfg f2 w1) = None
           \<and> sent (fd w2) = sent (fd w1) @ [MessageSpoiler ?n]
           \<and> (\<exists>img. images (st w2) ?n = Some img \<and> Spoiler img)"
    if ns: "\<not> ReqSpoiler req"
  proof -
    let ?v = "incrementSpamScore (CharScore cfg) w1"
    have h: "hasPost (cl ?v) = (True, None)"
      using assms(1) by (simp add: hasPost_def incrementSpamScore_def w1)
    have bodyHi: "hasImage f2 ?v = (Inr True, ?v)"
      using assms(4)
      by (simp add: hasImage_def db_HasImage_def incrementSpamScore_def
          db_IncrementSpamScore_def w1)
    have p: "post (cl ?v) = (post (cl w))\<lparr>isSpoilered := False\<rparr>"
      using ns by (simp add: incrementSpamScore_def w1)
    show ?thesis
      unfolding assms(7) spoilerImage_def Let_def h bodyHi
      using assms(5) ns
      by (simp add: p db_SpoilerImage_def EncodeMessage_def feed_SpoilerImage_def
          incrementSpamScore_def db_IncrementSpamScore_def w1)
  qed
  show ?thesis using a b c d by blast
qed

theorem respoiler_after_removal_witness:
  "id_post (post (cl worldStale)) \<noteq> 0
   \<and> isSpoilered (post (cl worldStale))
   \<and> images (st worldStale) (id_post (post (cl worldStale))) = None
   \<and> fst (insertImage cfg0 nofault (Inr (imageReq False)) worldStale) = None
   \<and> \<not> nofault OpHasImage \<and> \<not> nofault OpSpoilerImage
   \<and> \<not> isSpoilered (post (cl (snd (hasImage nofault worldStale))))
   \<and> \<not> isSpoilered (post (cl (snd (insertImage cfg0 nofault (Inr (imageReq False))
            worldStale))))
   \<and> fst (spoilerImage cfg0 nofault
            (snd (insertImage cfg0 nofault (Inr (imageReq False)) worldStale))) = None
   \<and> sent (fd (snd (spoilerImage cfg0 nofault
            (snd (insertImage cfg0 nofault (Inr (imageReq False)) worldStale)))))
       = sent (fd (snd (insertImage cfg0 nofault (Inr (imageReq False)) worldStale)))
           @ [MessageSpoiler 101]"
proof -
  have n: "id_post (post (cl worldStale)) = 101"
    by (simp add: worldStale_def world0_def post0_def)
  have h1: "id_post (post (cl worldStale)) \<noteq> 0" by (simp add: n)
  have h0: "isSpoilered (post (cl worldStale))"
    by (simp add: worldStale_def world0_def post0_def)
  have h2: "images (st worldStale) (id_post (post (cl worldStale))) = None"
    by (simp add: worldStale_def world0_def storeStaged_def store0_def)
  have h3: "fst (insertImage cfg0 nofault (Inr (imageReq False)) worldStale) = None"
    by (simp add: insertImage_def incrementSpamScore_def db_IncrementSpamScore_def hasPost_def
        hasImage_def db_HasImage_def db_InsertImage_def setPost_def cfg0_def nofault_def
        worldStale_def world0_def post0_def storeStaged_def store0_def imageReq_def Let_def)
  have h4: "\<not> nofault OpHasImage" and h5: "\<not> nofault OpSpoilerImage"
    by (simp_all add: nofault_def)
  have r: "\<not> ReqSpoiler (imageReq False)" by (simp add: imageReq_def)
  show ?thesis
    using h0 h1 h2 h3 h4 h5 r
      respoiler_after_removal[where g = nofault, OF h1 h2 h3 h4 h5 refl refl]
    by (simp add: n)
qed

text \<open>
  C10 as stated fails: the Store has no image for post 101 and the stale flag is set;
  the new image is inserted with the request's spoiler flag set, so it starts
  spoilered, and the following \<open>spoilerImage\<close> returns through the NOP branch: nothing
  is broadcast and the stored images are as before.
\<close>

theorem respoiler_after_removal_counterexample:
  "images (st worldStale) 101 = None
   \<and> fst (insertImage cfg0 nofault (Inr (imageReq True)) worldStale) = None
   \<and> isSpoilered (post (cl (snd (insertImage cfg0 nofault (Inr (imageReq True))
          worldStale))))
   \<and> images (st (snd (insertImage cfg0 nofault (Inr (imageReq True)) worldStale))) 101
       = Some \<lparr>Name = ''dog'', File = ''f2.png'', Spoiler = True\<rparr>
   \<and> fst (spoilerImage cfg0 nofault
            (snd (insertImage cfg0 nofault (Inr (imageReq True)) worldStale))) = None
   \<and> sent (fd (snd (spoilerImage cfg0 nofault
            (snd (insertImage cfg0 nofault (Inr (imageReq True)) worldStale)))))
       = sent (fd (snd (insertImage cfg0 nofault (Inr (imageReq True)) worldStale)))"
  by (simp add: insertImage_def spoilerImage_def incrementSpamScore_def
      db_IncrementSpamScore_def hasPost_def hasImage_def db_HasImage_def db_InsertImage_def
      setPost_def feed_InsertImage_def cfg0_def nofault_def worldStale_def world0_def post0_def
      storeStaged_def store0_def imageReq_def feed0_def Let_def)

end
